theory Spec2Isabelle
  imports Main "HOL-Library.Word" "HOL-Library.List_Lexorder"
begin

section \<open>JavaScript strings\<close>

text \<open>
  A JavaScript string is a sequence of UTF-16 code units; \<open>length\<close>, \<open>indexOf\<close>,
  \<open>slice\<close> and \<open>trim\<close> all count and inspect code units. The model is a list of
  16-bit words. \<open>js\<close> embeds an ASCII literal.
\<close>

type_synonym jschar = "16 word"
type_synonym jsstring = "jschar list"

definition js :: "string \<Rightarrow> jsstring" where
  "js s = map (\<lambda>c. of_nat (of_char c)) s"

definition NL :: jschar where
  "NL = 0x0A"

definition COMMA :: jschar where
  "COMMA = 0x2C"

text \<open>
  \<open>String.prototype.trim\<close> removes the code units that ECMAScript calls WhiteSpace
  (TAB, VT, FF, SP, NBSP, ZWNBSP and the Unicode category Zs) or LineTerminator
  (LF, CR, LS, PS) from both ends.
\<close>

definition isWhiteSpace :: "jschar \<Rightarrow> bool" where
  "isWhiteSpace c \<longleftrightarrow>
     c \<in> {0x0009, 0x000A, 0x000B, 0x000C, 0x000D, 0x0020, 0x00A0, 0x1680,
          0x2028, 0x2029, 0x202F, 0x205F, 0x3000, 0xFEFF}
     \<or> (0x2000 \<le> c \<and> c \<le> 0x200A)"

definition trim :: "jsstring \<Rightarrow> jsstring" where
  "trim s = rev (dropWhile isWhiteSpace (rev (dropWhile isWhiteSpace s)))"

definition trimmed :: "jsstring \<Rightarrow> bool" where
  "trimmed s \<longleftrightarrow> s = [] \<or> (\<not> isWhiteSpace (hd s) \<and> \<not> isWhiteSpace (last s))"

text \<open>
  \<open>s.indexOf(c)\<close> and \<open>s.lastIndexOf(c)\<close> for a one-character search string: the
  first and the last index holding \<open>c\<close>, or \<open>-1\<close>. \<open>s.lastIndexOf(c, pos)\<close> looks
  at the indices \<open>0..pos\<close> only.
\<close>

definition indexOf :: "jsstring \<Rightarrow> jschar \<Rightarrow> int" where
  "indexOf s c =
     (let n = length (takeWhile (\<lambda>x. x \<noteq> c) s)
      in if n < length s then int n else - 1)"

definition lastIndexOf :: "jsstring \<Rightarrow> jschar \<Rightarrow> int" where
  "lastIndexOf s c = int (length (dropWhile (\<lambda>x. x \<noteq> c) (rev s))) - 1"

definition lastIndexOfFrom :: "jsstring \<Rightarrow> jschar \<Rightarrow> nat \<Rightarrow> int" where
  "lastIndexOfFrom s c pos = lastIndexOf (take (Suc pos) s) c"

text \<open>
  \<open>s.slice(start, end)\<close>: a negative index counts from the end, and both indices
  are clamped to the string. \<open>s.slice(start)\<close> runs to the end of the string.
\<close>

definition slice :: "jsstring \<Rightarrow> int \<Rightarrow> int \<Rightarrow> jsstring" where
  "slice s start end =
     (let len = int (length s);
          from = (if start < 0 then max (len + start) 0 else min start len);
          to = (if end < 0 then max (len + end) 0 else min end len)
      in take (nat (to - from)) (drop (nat from) s))"

definition sliceFrom :: "jsstring \<Rightarrow> int \<Rightarrow> jsstring" where
  "sliceFrom s start = slice s start (int (length s))"

definition startsWith :: "jsstring \<Rightarrow> jsstring \<Rightarrow> bool" where
  "startsWith s p \<longleftrightarrow> take (length p) s = p"

text \<open>\<open>parts.join(sep)\<close> on an array of strings.\<close>

fun joinWith :: "jsstring \<Rightarrow> jsstring list \<Rightarrow> jsstring" where
  "joinWith sep [] = []"
| "joinWith sep [x] = x"
| "joinWith sep (x # y # ys) = x @ sep @ joinWith sep (y # ys)"

text \<open>
  \<open>String(n)\<close> and \<open>`${n}`\<close> for a number that is an integer: its decimal
  digits, with a minus sign when negative. (JavaScript switches to exponent
  notation from \<open>10^21\<close> on; chat and message ids stay far below that.)
\<close>

fun digitsOf :: "nat \<Rightarrow> jsstring" where
  "digitsOf n = (if n < 10 then [of_nat (48 + n)] else digitsOf (n div 10) @ [of_nat (48 + n mod 10)])"

definition numberToString :: "int \<Rightarrow> jsstring" where
  "numberToString n = (if n < 0 then js ''-'' @ digitsOf (nat (- n)) else digitsOf (nat n))"

section \<open>Output processing: header and footer stripping (processJob, lines 565-570)\<close>

definition jobOutput :: "jsstring \<Rightarrow> jsstring" where
  "jobOutput fileText =
     (let raw = trim fileText;
          firstNl = indexOf raw NL;
          lastNl = lastIndexOf raw NL
      in if firstNl \<noteq> - 1 \<and> firstNl \<noteq> lastNl
         then trim (slice raw (firstNl + 1) lastNl)
         else raw)"

text \<open>
  The specification speaks of lines. \<open>splitLines\<close> cuts a text at every line feed
  and \<open>joinLines\<close> puts the pieces back; \<open>stripHeaderFooter_spec\<close> follows the
  specification's words: for more than two lines drop the first and the last line,
  otherwise leave the text alone.
\<close>

fun splitLines :: "jsstring \<Rightarrow> jsstring list" where
  "splitLines [] = [[]]"
| "splitLines (c # cs) =
     (if c = NL then [] # splitLines cs
      else (case splitLines cs of [] \<Rightarrow> [[c]] | l # ls \<Rightarrow> (c # l) # ls))"

definition joinLines :: "jsstring list \<Rightarrow> jsstring" where
  "joinLines ls = joinWith [NL] ls"

definition stripHeaderFooter_spec :: "jsstring \<Rightarrow> jsstring" where
  "stripHeaderFooter_spec raw =
     (if length (splitLines raw) > 2 then joinLines (butlast (tl (splitLines raw))) else raw)"

subsection \<open>Facts about the string primitives\<close>

lemma takeWhile_neq_all: "c \<notin> set s \<Longrightarrow> takeWhile (\<lambda>x. x \<noteq> c) s = s"
  by (induction s) auto

lemma dropWhile_neq_all: "c \<notin> set s \<Longrightarrow> dropWhile (\<lambda>x. x \<noteq> c) s = []"
  by (induction s) auto

lemma takeWhile_neq_first: "c \<notin> set a \<Longrightarrow> takeWhile (\<lambda>x. x \<noteq> c) (a @ c # rest) = a"
  by (induction a) auto

lemma dropWhile_neq_first: "c \<notin> set b \<Longrightarrow> dropWhile (\<lambda>x. x \<noteq> c) (b @ c # a) = c # a"
  by (induction b) auto

lemma indexOf_none: "c \<notin> set s \<Longrightarrow> indexOf s c = - 1"
  by (simp add: indexOf_def takeWhile_neq_all)

lemma indexOf_first: "c \<notin> set a \<Longrightarrow> indexOf (a @ c # rest) c = int (length a)"
  unfolding indexOf_def using takeWhile_neq_first [of c a rest] by simp

lemma lastIndexOf_none: "c \<notin> set s \<Longrightarrow> lastIndexOf s c = - 1"
  unfolding lastIndexOf_def using dropWhile_neq_all [of c "rev s"] by simp

lemma lastIndexOf_last: "c \<notin> set b \<Longrightarrow> lastIndexOf (a @ c # b) c = int (length a)"
  unfolding lastIndexOf_def using dropWhile_neq_first [of c "rev b" "rev a"] by simp

lemma slice_middle:
  "slice (a @ x # m @ y # b) (int (length a) + 1) (int (length a) + 1 + int (length m)) = m"
  by (simp add: slice_def Let_def nat_add_distrib)

lemma splitLines_nonempty: "splitLines s \<noteq> []"
  by (cases s) (auto split: list.splits)

lemma length_splitLines: "length (splitLines s) = Suc (length (filter (\<lambda>x. x = NL) s))"
  by (induction s) (auto split: list.splits)

lemma splitLines_no_NL: "NL \<notin> set s \<Longrightarrow> splitLines s = [s]"
  by (induction s) auto

lemma splitLines_first: "NL \<notin> set a \<Longrightarrow> splitLines (a @ NL # rest) = a # splitLines rest"
  by (induction a) auto

lemma splitLines_last: "NL \<notin> set b \<Longrightarrow> splitLines (m @ NL # b) = splitLines m @ [b]"
proof (induction m)
  case Nil
  then show ?case by (simp add: splitLines_no_NL)
next
  case (Cons c m)
  then show ?case using splitLines_nonempty [of m] by (cases "splitLines m") auto
qed

lemma joinLines_splitLines: "joinLines (splitLines s) = s"
proof (induction s)
  case Nil
  then show ?case by (simp add: joinLines_def)
next
  case (Cons c cs)
  obtain l ls where sp: "splitLines cs = l # ls"
    using splitLines_nonempty [of cs] by (cases "splitLines cs") auto
  show ?case
  proof (cases "c = NL")
    case True
    then show ?thesis using Cons.IH sp by (simp add: joinLines_def)
  next
    case False
    then show ?thesis using Cons.IH sp by (cases ls) (auto simp: joinLines_def)
  qed
qed

lemma last_dropWhile_eq: "dropWhile P xs \<noteq> [] \<Longrightarrow> last (dropWhile P xs) = last xs"
  by (induction xs) (auto split: if_splits)

lemma trimmed_trim: "trimmed (trim s)"
proof -
  let ?t = "dropWhile isWhiteSpace s"
  let ?u = "dropWhile isWhiteSpace (rev ?t)"
  show ?thesis
  proof (cases "?u = []")
    case True
    then show ?thesis by (simp add: trimmed_def trim_def)
  next
    case False
    then have t: "?t \<noteq> []" by (metis dropWhile.simps(1) rev.simps(1))
    have "\<not> isWhiteSpace (hd ?u)" using False by (rule hd_dropWhile)
    moreover have "last ?u = last (rev ?t)" using False by (rule last_dropWhile_eq)
    then have "last ?u = hd ?t" using t by (simp add: last_rev)
    then have "\<not> isWhiteSpace (last ?u)" using hd_dropWhile [OF t] by simp
    ultimately show ?thesis using False
      by (simp add: trimmed_def trim_def hd_rev last_rev)
  qed
qed

lemma trim_trimmed: "trimmed s \<Longrightarrow> trim s = s"
proof (cases "s = []")
  case True
  then show ?thesis by (simp add: trim_def)
next
  case False
  assume "trimmed s"
  with False have h: "\<not> isWhiteSpace (hd s)" and l: "\<not> isWhiteSpace (last s)"
    by (auto simp: trimmed_def)
  from False h have "dropWhile isWhiteSpace s = s" by (cases s) auto
  moreover from False l have "dropWhile isWhiteSpace (rev s) = rev s"
    by (cases "rev s") (auto simp: last_rev [symmetric])
  ultimately show ?thesis by (simp add: trim_def)
qed

lemma trim_idem: "trim (trim s) = trim s"
  by (rule trim_trimmed [OF trimmed_trim])

lemma length_trim_le: "length (trim s) \<le> length s"
proof -
  have "length (trim s) \<le> length (dropWhile isWhiteSpace s)"
    unfolding trim_def using length_dropWhile_le [of isWhiteSpace "rev (dropWhile isWhiteSpace s)"] by simp
  also have "\<dots> \<le> length s" by (rule length_dropWhile_le)
  finally show ?thesis .
qed

lemma length_trim_ws_hd: "s \<noteq> [] \<Longrightarrow> isWhiteSpace (hd s) \<Longrightarrow> length (trim s) < length s"
proof -
  assume "s \<noteq> []" "isWhiteSpace (hd s)"
  then obtain c cs where s: "s = c # cs" and c: "isWhiteSpace c" by (cases s) auto
  have "length (trim s) \<le> length (dropWhile isWhiteSpace s)"
    unfolding trim_def using length_dropWhile_le [of isWhiteSpace "rev (dropWhile isWhiteSpace s)"] by simp
  also have "\<dots> \<le> length cs" using s c length_dropWhile_le [of isWhiteSpace cs] by simp
  finally show ?thesis using s by simp
qed

lemma jobOutput_spec: "jobOutput fileText = trim (stripHeaderFooter_spec (trim fileText))"
proof -
  let ?raw = "trim fileText"
  let ?n = "length (filter (\<lambda>x. x = NL) ?raw)"
  consider (zero) "NL \<notin> set ?raw" | (some) "NL \<in> set ?raw" by blast
  then show ?thesis
  proof cases
    case zero
    then show ?thesis
      by (simp add: jobOutput_def stripHeaderFooter_spec_def indexOf_none splitLines_no_NL trim_idem)
  next
    case some
    then obtain a r where ar: "?raw = a @ NL # r" "NL \<notin> set a"
      using split_list_first [of NL ?raw] by auto
    show ?thesis
    proof (cases "NL \<in> set r")
      case False
      have "indexOf ?raw NL = int (length a)" using ar by (simp add: indexOf_first)
      moreover have "lastIndexOf ?raw NL = int (length a)" using ar False by (simp add: lastIndexOf_last)
      moreover have "splitLines ?raw = [a, r]" using ar False by (simp add: splitLines_first splitLines_no_NL)
      ultimately show ?thesis
        by (simp add: jobOutput_def stripHeaderFooter_spec_def trim_idem)
    next
      case True
      then obtain m b where mb: "r = m @ NL # b" "NL \<notin> set b"
        using split_list_last [of NL r] by auto
      have raw: "?raw = a @ NL # m @ NL # b" using ar mb by simp
      have i: "indexOf ?raw NL = int (length a)" using ar by (simp add: indexOf_first)
      have "?raw = (a @ NL # m) @ NL # b" using raw by simp
      then have l: "lastIndexOf ?raw NL = int (length a) + 1 + int (length m)"
        using mb lastIndexOf_last [of NL b "a @ NL # m"] by simp
      have sp: "splitLines ?raw = a # splitLines m @ [b]"
        using raw ar mb by (simp add: splitLines_first splitLines_last)
      have sl: "slice ?raw (int (length a) + 1) (int (length a) + 1 + int (length m)) = m"
        unfolding raw by (rule slice_middle)
      have "length (splitLines ?raw) > 2" using sp splitLines_nonempty [of m] by (cases "splitLines m") auto
      then have "stripHeaderFooter_spec ?raw = m"
        using sp by (simp add: stripHeaderFooter_spec_def joinLines_splitLines)
      moreover have "jobOutput fileText = trim m"
        using i l sl by (simp add: jobOutput_def Let_def)
      ultimately show ?thesis by simp
    qed
  qed
qed


section \<open>Effects: the world outside the program\<close>

text \<open>
  The program talks to the chat service, the file system and the queue binary.
  Every such call is an \<open>op\<close>; a run produces the list of the calls it made, each
  with its outcome (\<open>None\<close>: the promise resolved; \<open>Some e\<close>: it rejected with
  \<open>e\<close>), interleaved with the lines written to the console.
\<close>

datatype error = Error jsstring

record JobMeta =
  chatId :: int
  messageId :: int
  userId :: "int option"

record http_response =
  resp_ok :: bool
  resp_status :: int
  resp_statusText :: jsstring
  resp_body :: "8 word list"

record command_output =
  out_success :: bool
  out_stdout :: jsstring
  out_stderr :: jsstring

record dir_entry =
  entry_name :: jsstring
  entry_isFile :: bool

datatype op =
    ReplyWithChatAction
  | Mkdir jsstring nat
  | GetFile jsstring
  | Fetch jsstring
  | ArrayBuffer jsstring
  | WriteFile jsstring "8 word list"
  | Remove jsstring bool
  | WriteTextFile jsstring jsstring
  | RunNq "jsstring list"
  | Symlink jsstring jsstring
  | ReadTextFile jsstring
  | SendChatAction int
  | SendMessage int jsstring int
  | Rename jsstring jsstring
  | Lstat jsstring
  | Stat jsstring
  | ReadDir jsstring

datatype logline =
    IngressMessage jsstring "int option" "jsstring list"
  | IngressSkipped bool bool
  | Downloaded jsstring
  | DownloadFailed jsstring error
  | NqFailed jsstring
  | SymlinkFailed jsstring error
  | Queued jsstring "int option"
  | IngressError error
  | EgressError jsstring error
  | ScanError error
  | EmptyOutput jsstring
  | SentResponse jsstring int

datatype event =
    Call op "error option"
  | ConsoleLog logline
  | ConsoleError logline

text \<open>
  What the outside answers may depend on everything that happened before, so
  each answer is a function of the events so far. \<open>fails\<close> says whether a call
  rejects; the other fields give the value of a call that resolves. The record
  also carries what the program takes from its libraries and its environment:
  the path functions of \<open>@std/path\<close>, \<open>convert(text, 'escape')\<close> of
  \<open>telegram-markdown-v2\<close>, JSON parsing and validation of \<open>meta.json\<close>, the bot
  token and the directories computed from the environment variables.
\<close>

record world =
  fails :: "event list \<Rightarrow> op \<Rightarrow> error option"
  getFile_file_path :: "event list \<Rightarrow> jsstring \<Rightarrow> jsstring option"
  fetch_response :: "event list \<Rightarrow> jsstring \<Rightarrow> http_response"
  nq_output :: "event list \<Rightarrow> command_output"
  readTextFile_text :: "event list \<Rightarrow> jsstring \<Rightarrow> jsstring"
  lstat_isSymlink :: "event list \<Rightarrow> jsstring \<Rightarrow> bool"
  readDir_entries :: "event list \<Rightarrow> jsstring \<Rightarrow> dir_entry list"
  join :: "jsstring list \<Rightarrow> jsstring"
  basename :: "jsstring \<Rightarrow> jsstring"
  dirname :: "jsstring \<Rightarrow> jsstring"
  convert :: "jsstring \<Rightarrow> jsstring"
  parseJobMeta :: "jsstring \<Rightarrow> error + JobMeta"
  stringifyJobMeta :: "JobMeta \<Rightarrow> jsstring"
  bot_token :: jsstring
  execPath :: jsstring
  DATA_DIR :: jsstring
  QUEUE_DIR :: jsstring

type_synonym 'a io = "event list \<Rightarrow> (error + 'a) \<times> event list"

definition ret :: "'a \<Rightarrow> 'a io" where
  "ret x tr = (Inr x, tr)"

definition throw :: "error \<Rightarrow> 'a io" where
  "throw e tr = (Inl e, tr)"

definition andThen :: "'a io \<Rightarrow> ('a \<Rightarrow> 'b io) \<Rightarrow> 'b io" where
  "andThen m f tr = (case m tr of (Inl e, tr') \<Rightarrow> (Inl e, tr') | (Inr x, tr') \<Rightarrow> f x tr')"

definition tryCatch :: "'a io \<Rightarrow> (error \<Rightarrow> 'a io) \<Rightarrow> 'a io" where
  "tryCatch m h tr = (case m tr of (Inl e, tr') \<Rightarrow> h e tr' | (Inr x, tr') \<Rightarrow> (Inr x, tr'))"

definition consoleLog :: "logline \<Rightarrow> unit io" where
  "consoleLog l tr = (Inr (), tr @ [ConsoleLog l])"

definition consoleError :: "logline \<Rightarrow> unit io" where
  "consoleError l tr = (Inr (), tr @ [ConsoleError l])"

definition callV :: "world \<Rightarrow> op \<Rightarrow> (event list \<Rightarrow> 'a) \<Rightarrow> 'a io" where
  "callV w operation v tr =
     (case fails w tr operation of
        Some e \<Rightarrow> (Inl e, tr @ [Call operation (Some e)])
      | None \<Rightarrow> (Inr (v tr), tr @ [Call operation None]))"

definition call :: "world \<Rightarrow> op \<Rightarrow> unit io" where
  "call w operation = callV w operation (\<lambda>_. ())"

lemma andThen_cong [fundef_cong]:
  "m = m' \<Longrightarrow> (\<And>x. f x = f' x) \<Longrightarrow> andThen m f = andThen m' f'"
  by (auto simp: andThen_def fun_eq_iff split: prod.splits sum.splits)

section \<open>Paths (lines 69-78, 151-157)\<close>

definition MESSAGES_DIR :: "world \<Rightarrow> jsstring" where
  "MESSAGES_DIR w = join w [DATA_DIR w, js ''messages'']"

definition QUEUE_COMPLETED_DIR :: "world \<Rightarrow> jsstring" where
  "QUEUE_COMPLETED_DIR w = join w [QUEUE_DIR w, js ''completed'']"

definition QUEUE_FAILED_DIR :: "world \<Rightarrow> jsstring" where
  "QUEUE_FAILED_DIR w = join w [QUEUE_DIR w, js ''failed'']"

definition getMessageDir :: "world \<Rightarrow> jsstring \<Rightarrow> jsstring \<Rightarrow> jsstring" where
  "getMessageDir w channel ident = join w [MESSAGES_DIR w, channel, ident]"

definition getJobDir :: "world \<Rightarrow> jsstring \<Rightarrow> jsstring" where
  "getJobDir w jobFile = join w [DATA_DIR w, jobFile @ js ''.d'']"

definition getJobMeta :: "world \<Rightarrow> jsstring \<Rightarrow> jsstring" where
  "getJobMeta w jobFile = join w [getJobDir w jobFile, js ''meta.json'']"

section \<open>Egress: sendSplitMessage (lines 490-522)\<close>

definition MAX_LENGTH :: nat where
  "MAX_LENGTH = 4096"

text \<open>Lines 501-504: where the next chunk ends.\<close>

definition nextSplitIndex :: "jsstring \<Rightarrow> int" where
  "nextSplitIndex remaining =
     (let splitIndex = lastIndexOfFrom remaining NL MAX_LENGTH
      in if splitIndex = - 1 then int MAX_LENGTH else splitIndex)"

lemma lastIndexOf_bounds: "- 1 \<le> lastIndexOf s c \<and> lastIndexOf s c < int (length s)"
proof -
  have "length (dropWhile (\<lambda>x. x \<noteq> c) (rev s)) \<le> length (rev s)"
    by (rule length_dropWhile_le)
  then show ?thesis by (simp add: lastIndexOf_def)
qed

lemma lastIndexOf_zero_hd: "lastIndexOf s c = 0 \<Longrightarrow> s \<noteq> [] \<and> hd s = c"
proof -
  assume z: "lastIndexOf s c = 0"
  let ?d = "dropWhile (\<lambda>x. x \<noteq> c) (rev s)"
  from z have len: "length ?d = 1" by (simp add: lastIndexOf_def)
  then have ne: "?d \<noteq> []" by (metis length_0_conv zero_neq_one)
  have h: "hd ?d = c" using hd_dropWhile [OF ne] by simp
  from len ne have "last ?d = hd ?d" by (cases ?d) auto
  moreover have "last ?d = last (rev s)" using ne by (rule last_dropWhile_eq)
  moreover have s: "s \<noteq> []" using ne by (metis dropWhile.simps(1) rev.simps(1))
  ultimately show ?thesis using h by (simp add: last_rev)
qed

lemma nextSplitIndex_bounds: "0 \<le> nextSplitIndex s \<and> nextSplitIndex s \<le> int MAX_LENGTH"
  using lastIndexOf_bounds [of "take (Suc MAX_LENGTH) s" NL]
  by (auto simp: nextSplitIndex_def lastIndexOfFrom_def Let_def)

lemma nextSplitIndex_zero: "nextSplitIndex s = 0 \<Longrightarrow> s \<noteq> [] \<and> hd s = NL"
proof -
  assume "nextSplitIndex s = 0"
  then have "lastIndexOf (take (Suc MAX_LENGTH) s) NL = 0"
    by (auto simp: nextSplitIndex_def lastIndexOfFrom_def Let_def MAX_LENGTH_def split: if_splits)
  from lastIndexOf_zero_hd [OF this] show ?thesis by auto
qed

lemma sliceFrom_drop: "0 \<le> k \<Longrightarrow> sliceFrom s k = drop (nat k) s"
  by (auto simp: sliceFrom_def slice_def Let_def min_def)

lemma slice_take: "0 \<le> k \<Longrightarrow> slice s 0 k = take (nat k) s"
  by (auto simp: slice_def Let_def min_def)

lemma isWhiteSpace_NL: "isWhiteSpace NL"
  by (simp add: isWhiteSpace_def NL_def)

lemma split_rest_shorter:
  "MAX_LENGTH < length remaining \<Longrightarrow>
   length (trim (sliceFrom remaining (nextSplitIndex remaining))) < length remaining"
proof -
  assume long: "MAX_LENGTH < length remaining"
  let ?k = "nextSplitIndex remaining"
  have k0: "0 \<le> ?k" using nextSplitIndex_bounds [of remaining] by simp
  then have sl: "sliceFrom remaining ?k = drop (nat ?k) remaining" by (rule sliceFrom_drop)
  show ?thesis
  proof (cases "?k = 0")
    case True
    from nextSplitIndex_zero [OF True] have "remaining \<noteq> []" "isWhiteSpace (hd remaining)"
      by (simp_all add: isWhiteSpace_NL)
    then have "length (trim remaining) < length remaining" by (rule length_trim_ws_hd)
    then show ?thesis using sl True by simp
  next
    case False
    with k0 have "0 < nat ?k" by simp
    moreover have "length (trim (drop (nat ?k) remaining)) \<le> length (drop (nat ?k) remaining)"
      by (rule length_trim_le)
    ultimately show ?thesis using sl long by simp
  qed
qed

function sendSplitLoop :: "world \<Rightarrow> int \<Rightarrow> int \<Rightarrow> jsstring \<Rightarrow> unit io" where
  "sendSplitLoop w chat replyToMessageId remaining =
     (if length remaining > MAX_LENGTH then
        (let splitIndex = nextSplitIndex remaining;
             chunk = trim (slice remaining 0 splitIndex)
         in andThen
              (if chunk \<noteq> [] then call w (SendMessage chat chunk replyToMessageId) else ret ())
              (\<lambda>_. sendSplitLoop w chat replyToMessageId (trim (sliceFrom remaining splitIndex))))
      else if remaining \<noteq> [] then call w (SendMessage chat remaining replyToMessageId)
      else ret ())"
  by pat_completeness auto
termination
  by (relation "measure (\<lambda>(w, chat, replyTo, remaining). length remaining)")
     (auto simp: split_rest_shorter)

definition sendSplitMessage :: "world \<Rightarrow> int \<Rightarrow> jsstring \<Rightarrow> int \<Rightarrow> unit io" where
  "sendSplitMessage w chat text replyToMessageId =
     (let escapedOutput = convert w text
      in sendSplitLoop w chat replyToMessageId escapedOutput)"

text \<open>
  The texts the loop hands to \<open>sendMessage\<close>, in order, as a list: the same
  recursion without the sending.
\<close>

function splitChunks :: "jsstring \<Rightarrow> jsstring list" where
  "splitChunks remaining =
     (if length remaining > MAX_LENGTH then
        (let splitIndex = nextSplitIndex remaining;
             chunk = trim (slice remaining 0 splitIndex)
         in (if chunk \<noteq> [] then [chunk] else [])
            @ splitChunks (trim (sliceFrom remaining splitIndex)))
      else if remaining \<noteq> [] then [remaining]
      else [])"
  by pat_completeness auto
termination
  by (relation "measure length") (auto simp: split_rest_shorter)

fun sendAll :: "world \<Rightarrow> int \<Rightarrow> int \<Rightarrow> jsstring list \<Rightarrow> unit io" where
  "sendAll w chat replyToMessageId [] = ret ()"
| "sendAll w chat replyToMessageId (c # cs) =
     andThen (call w (SendMessage chat c replyToMessageId))
       (\<lambda>_. sendAll w chat replyToMessageId cs)"


section \<open>Egress: processJob (lines 551-596)\<close>

definition readTextFile :: "world \<Rightarrow> jsstring \<Rightarrow> jsstring io" where
  "readTextFile w path = callV w (ReadTextFile path) (\<lambda>tr. readTextFile_text w tr path)"

text \<open>
  Lines 577-595 of \<open>processJob\<close>: the typing indicator, the delivery, the rename
  that retires the job file, and the removal of the job link.
\<close>

definition deliverAndRetire ::
  "world \<Rightarrow> jsstring \<Rightarrow> jsstring \<Rightarrow> jsstring \<Rightarrow> JobMeta \<Rightarrow> jsstring \<Rightarrow> unit io" where
  "deliverAndRetire w logPath jobDir jobName meta output =
     andThen (call w (SendChatAction (chatId meta))) (\<lambda>_.
     andThen (sendSplitMessage w (chatId meta) output (messageId meta)) (\<lambda>_.
     andThen (call w (Rename logPath (join w [jobDir, jobName]))) (\<lambda>_.
     let jobLink = join w [DATA_DIR w, jobName @ js ''.d'']
     in andThen
          (tryCatch
             (andThen (callV w (Lstat jobLink) (\<lambda>tr. lstat_isSymlink w tr jobLink))
                (\<lambda>isSymlink.
                   if isSymlink then call w (Remove jobLink False) else ret ()))
             (\<lambda>_. ret ()))
          (\<lambda>_. consoleLog (SentResponse jobName (chatId meta))))))"

text \<open>Lines 556-575 of \<open>processJob\<close>, then the rest above.\<close>

definition processJob :: "world \<Rightarrow> jsstring \<Rightarrow> jsstring \<Rightarrow> unit io" where
  "processJob w scanDir jobName =
     (let logPath = join w [scanDir, jobName];
          jobDir = getJobDir w jobName;
          metaPath = getJobMeta w jobName
      in andThen (readTextFile w metaPath) (\<lambda>metaText.
         andThen (Pair (parseJobMeta w metaText)) (\<lambda>meta.
         andThen (readTextFile w logPath) (\<lambda>fileText.
           let output = jobOutput fileText
           in if output = [] then consoleLog (EmptyOutput jobName)
              else deliverAndRetire w logPath jobDir jobName meta output))))"

section \<open>Egress: scanAndProcess (lines 524-549) and the watch loop (lines 459-487)\<close>

text \<open>The \<open>for (const name of jobs)\<close> loop of lines 539-545.\<close>

fun processJobs :: "world \<Rightarrow> jsstring \<Rightarrow> jsstring list \<Rightarrow> unit io" where
  "processJobs w scanDir [] = ret ()"
| "processJobs w scanDir (name # rest) =
     andThen
       (tryCatch (processJob w scanDir name) (\<lambda>err. consoleError (EgressError name err)))
       (\<lambda>_. processJobs w scanDir rest)"

definition scanAndProcess :: "world \<Rightarrow> jsstring \<Rightarrow> unit io" where
  "scanAndProcess w scanDir =
     tryCatch
       (andThen (callV w (ReadDir scanDir) (\<lambda>tr. readDir_entries w tr scanDir)) (\<lambda>entries.
          let jobs = sort (map entry_name
                (filter (\<lambda>entry. \<not> (\<not> entry_isFile entry \<or> \<not> startsWith (entry_name entry) (js '','')))
                   entries))
          in processJobs w scanDir jobs))
       (\<lambda>err. consoleError (ScanError err))"

datatype fs_event_kind =
  KindAny | KindAccess | KindCreate | KindModify | KindRename | KindRemove | KindOther

record fs_event =
  event_kind :: fs_event_kind
  event_paths :: "jsstring list"

text \<open>
  The \<open>for (const path of event.paths)\<close> loop of lines 466-486; \<open>processing\<close> is
  the set that guards against duplicate events.
\<close>

fun watchPaths :: "world \<Rightarrow> jsstring set \<Rightarrow> jsstring list \<Rightarrow> (jsstring set) io" where
  "watchPaths w processing [] = ret processing"
| "watchPaths w processing (path # rest) =
     (let fileName = basename w path
      in if \<not> startsWith fileName (js '','') then watchPaths w processing rest
         else if fileName \<in> processing then watchPaths w processing rest
         else
           andThen
             (tryCatch
                (andThen (call w (Stat path)) (\<lambda>_.
                 andThen (call w (Stat (getJobMeta w fileName))) (\<lambda>_. ret True)))
                (\<lambda>_. ret False))
             (\<lambda>found.
                if \<not> found then watchPaths w processing rest
                else
                  andThen
                    (tryCatch (processJob w (dirname w path) fileName)
                       (\<lambda>err. consoleError (EgressError fileName err)))
                    (\<lambda>_. watchPaths w (insert fileName processing - {fileName}) rest)))"

text \<open>
  The \<open>for await (const event of watcher)\<close> loop of lines 463-487, run on the
  events the watcher has delivered so far.
\<close>

fun watchLoop :: "world \<Rightarrow> jsstring set \<Rightarrow> fs_event list \<Rightarrow> unit io" where
  "watchLoop w processing [] = ret ()"
| "watchLoop w processing (event # rest) =
     (if event_kind event = KindAccess \<or> event_kind event = KindOther
      then watchLoop w processing rest
      else andThen (watchPaths w processing (event_paths event))
             (\<lambda>processing'. watchLoop w processing' rest))"

text \<open>
  \<open>egress\<close> after its configuration is loaded (lines 450-487): both startup scans,
  then the watch loop.
\<close>

definition egress :: "world \<Rightarrow> fs_event list \<Rightarrow> unit io" where
  "egress w events =
     andThen (scanAndProcess w (QUEUE_COMPLETED_DIR w)) (\<lambda>_.
     andThen (scanAndProcess w (QUEUE_FAILED_DIR w)) (\<lambda>_.
     watchLoop w {} events))"

text \<open>The events a computation adds to the trace it starts from.\<close>

definition emitted :: "'a io \<Rightarrow> event list \<Rightarrow> event list" where
  "emitted m tr = drop (length tr) (snd (m tr))"

definition sent :: "int \<Rightarrow> int \<Rightarrow> jsstring \<Rightarrow> event" where
  "sent chat replyToMessageId chunk = Call (SendMessage chat chunk replyToMessageId) None"


section \<open>Facts about the chunking loop\<close>


declare sendSplitLoop.simps [simp del]
declare splitChunks.simps [simp del]

lemma andThen_ret: "andThen (ret x) f = f x"
  by (simp add: andThen_def ret_def fun_eq_iff)

lemma sendSplitLoop_sendAll:
  "sendSplitLoop w chat replyTo remaining = sendAll w chat replyTo (splitChunks remaining)"
proof (induction remaining rule: splitChunks.induct)
  case (1 remaining)
  show ?case
  proof (cases "length remaining > MAX_LENGTH")
    case True
    then show ?thesis
      using "1.IH" [OF True refl refl]
      by (subst sendSplitLoop.simps, subst splitChunks.simps) (simp add: Let_def andThen_ret)
  next
    case False
    then show ?thesis
      by (subst sendSplitLoop.simps, subst splitChunks.simps) (simp add: andThen_ret andThen_def ret_def fun_eq_iff split: prod.splits sum.splits)
  qed
qed

lemma sendAll_cases:
  "sendAll w chat replyTo cs tr = (Inr (), tr @ map (sent chat replyTo) cs)
   \<or> (\<exists>n e. n < length cs \<and>
        sendAll w chat replyTo cs tr =
          (Inl e, tr @ map (sent chat replyTo) (take n cs)
                  @ [Call (SendMessage chat (cs ! n) replyTo) (Some e)]))"
proof (induction cs arbitrary: tr)
  case Nil
  then show ?case by (simp add: ret_def)
next
  case (Cons c cs)
  show ?case
  proof (cases "fails w tr (SendMessage chat c replyTo)")
    case (Some e)
    then have "sendAll w chat replyTo (c # cs) tr =
        (Inl e, tr @ map (sent chat replyTo) (take 0 (c # cs)) @ [Call (SendMessage chat ((c # cs) ! 0) replyTo) (Some e)])"
      by (simp add: andThen_def call_def callV_def)
    then show ?thesis by blast
  next
    case None
    let ?tr = "tr @ [sent chat replyTo c]"
    from None have step: "sendAll w chat replyTo (c # cs) tr = sendAll w chat replyTo cs ?tr"
      by (simp add: andThen_def call_def callV_def sent_def)
    from Cons.IH [of ?tr] show ?thesis
    proof
      assume "sendAll w chat replyTo cs ?tr = (Inr (), ?tr @ map (sent chat replyTo) cs)"
      then show ?thesis using step by simp
    next
      assume "\<exists>n e. n < length cs \<and> sendAll w chat replyTo cs ?tr =
          (Inl e, ?tr @ map (sent chat replyTo) (take n cs) @ [Call (SendMessage chat (cs ! n) replyTo) (Some e)])"
      then obtain n e where n: "n < length cs" and
        r: "sendAll w chat replyTo cs ?tr =
          (Inl e, ?tr @ map (sent chat replyTo) (take n cs) @ [Call (SendMessage chat (cs ! n) replyTo) (Some e)])"
        by blast
      have "Suc n < length (c # cs)" using n by simp
      moreover have "sendAll w chat replyTo (c # cs) tr =
          (Inl e, tr @ map (sent chat replyTo) (take (Suc n) (c # cs)) @ [Call (SendMessage chat ((c # cs) ! Suc n) replyTo) (Some e)])"
        using step r by simp
      ultimately show ?thesis by blast
    qed
  qed
qed

lemma splitChunks_short:
  "length s \<le> MAX_LENGTH \<Longrightarrow> splitChunks s = (if s = [] then [] else [s])"
  by (subst splitChunks.simps) simp

lemma splitChunks_long:
  "MAX_LENGTH < length s \<Longrightarrow>
   splitChunks s =
     (if trim (slice s 0 (nextSplitIndex s)) \<noteq> [] then [trim (slice s 0 (nextSplitIndex s))] else [])
     @ splitChunks (trim (sliceFrom s (nextSplitIndex s)))"
  by (subst splitChunks.simps) (simp add: Let_def)

lemma length_chunk_le: "length (trim (slice s 0 (nextSplitIndex s))) \<le> MAX_LENGTH"
proof -
  have b: "0 \<le> nextSplitIndex s" "nextSplitIndex s \<le> int MAX_LENGTH"
    using nextSplitIndex_bounds [of s] by simp_all
  have "length (trim (slice s 0 (nextSplitIndex s))) \<le> length (slice s 0 (nextSplitIndex s))"
    by (rule length_trim_le)
  also have "\<dots> \<le> nat (nextSplitIndex s)" using b by (simp add: slice_take)
  also have "\<dots> \<le> MAX_LENGTH" using b by simp
  finally show ?thesis .
qed

lemma splitChunks_bounds: "c \<in> set (splitChunks s) \<Longrightarrow> c \<noteq> [] \<and> length c \<le> MAX_LENGTH"
proof (induction s rule: splitChunks.induct)
  case (1 remaining)
  show ?case
  proof (cases "length remaining > MAX_LENGTH")
    case True
    from "1.prems" have "c = trim (slice remaining 0 (nextSplitIndex remaining)) \<and> c \<noteq> []
        \<or> c \<in> set (splitChunks (trim (sliceFrom remaining (nextSplitIndex remaining))))"
      by (auto simp: splitChunks_long [OF True] split: if_splits)
    then show ?thesis using "1.IH" [OF True refl refl] length_chunk_le [of remaining] by auto
  next
    case False
    then show ?thesis using "1.prems" by (simp add: splitChunks_short split: if_splits)
  qed
qed

lemma splitChunks_of_trimmed: "trimmed s \<Longrightarrow> c \<in> set (splitChunks s) \<Longrightarrow> trim c = c"
proof (induction s rule: splitChunks.induct)
  case (1 remaining)
  show ?case
  proof (cases "length remaining > MAX_LENGTH")
    case True
    from "1.prems"(2) have "c = trim (slice remaining 0 (nextSplitIndex remaining))
        \<or> c \<in> set (splitChunks (trim (sliceFrom remaining (nextSplitIndex remaining))))"
      by (auto simp: splitChunks_long [OF True] split: if_splits)
    then show ?thesis using "1.IH" [OF True refl refl trimmed_trim] by (auto simp: trim_idem)
  next
    case False
    then show ?thesis using "1.prems" by (simp add: splitChunks_short trim_trimmed split: if_splits)
  qed
qed

lemma splitChunks_long_trimmed:
  "MAX_LENGTH < length s \<Longrightarrow> c \<in> set (splitChunks s) \<Longrightarrow> trim c = c"
proof -
  assume long: "MAX_LENGTH < length s" and c: "c \<in> set (splitChunks s)"
  from c have "c = trim (slice s 0 (nextSplitIndex s))
        \<or> c \<in> set (splitChunks (trim (sliceFrom s (nextSplitIndex s))))"
    by (auto simp: splitChunks_long [OF long] split: if_splits)
  then show ?thesis using splitChunks_of_trimmed [OF trimmed_trim] by (auto simp: trim_idem)
qed



lemma lastIndexOf_found:
  assumes "c \<in> set s"
  shows "0 \<le> lastIndexOf s c \<and> nat (lastIndexOf s c) < length s \<and> s ! nat (lastIndexOf s c) = c
         \<and> (\<forall>j. nat (lastIndexOf s c) < j \<and> j < length s \<longrightarrow> s ! j \<noteq> c)"
proof -
  from split_list_last [OF assms] obtain ys zs where s: "s = ys @ c # zs" and z: "c \<notin> set zs"
    by blast
  have l: "lastIndexOf s c = int (length ys)" unfolding s using z by (rule lastIndexOf_last)
  have "\<forall>j. length ys < j \<and> j < length s \<longrightarrow> s ! j \<noteq> c"
  proof (intro allI impI)
    fix j assume j: "length ys < j \<and> j < length s"
    then have "s ! j = zs ! (j - Suc (length ys))" unfolding s by (auto simp: nth_append nth_Cons')
    moreover have "j - Suc (length ys) < length zs" using j unfolding s by auto
    ultimately show "s ! j \<noteq> c" using z by (metis nth_mem)
  qed
  then show ?thesis using l s by simp
qed

lemma nextSplitIndex_newline:
  assumes long: "MAX_LENGTH < length s" and ex: "\<exists>i\<le>MAX_LENGTH. s ! i = NL"
  shows "nat (nextSplitIndex s) \<le> MAX_LENGTH \<and> s ! nat (nextSplitIndex s) = NL
         \<and> (\<forall>j. nat (nextSplitIndex s) < j \<and> j \<le> MAX_LENGTH \<longrightarrow> s ! j \<noteq> NL)"
proof -
  let ?p = "take (Suc MAX_LENGTH) s"
  have len: "length ?p = Suc MAX_LENGTH" using long by simp
  from ex obtain i where i: "i \<le> MAX_LENGTH" "s ! i = NL" by blast
  then have "?p ! i = NL" by simp
  then have "NL \<in> set ?p" using i len by (metis le_imp_less_Suc nth_mem)
  from lastIndexOf_found [OF this]
  have f: "0 \<le> lastIndexOf ?p NL" "nat (lastIndexOf ?p NL) < length ?p"
    "?p ! nat (lastIndexOf ?p NL) = NL"
    "\<forall>j. nat (lastIndexOf ?p NL) < j \<and> j < length ?p \<longrightarrow> ?p ! j \<noteq> NL"
    by simp_all
  have k: "nextSplitIndex s = lastIndexOf ?p NL"
    using f(1) by (simp add: nextSplitIndex_def lastIndexOfFrom_def Let_def)
  have "\<forall>j. nat (lastIndexOf ?p NL) < j \<and> j \<le> MAX_LENGTH \<longrightarrow> s ! j \<noteq> NL"
  proof (intro allI impI)
    fix j assume j: "nat (lastIndexOf ?p NL) < j \<and> j \<le> MAX_LENGTH"
    then have "j < length ?p" using len by linarith
    then have "?p ! j \<noteq> NL" using f(4) j by blast
    then show "s ! j \<noteq> NL" using j by simp
  qed
  moreover have "s ! nat (lastIndexOf ?p NL) = NL" using f(2,3) len by simp
  ultimately show ?thesis using k f(2) len by simp
qed

lemma nextSplitIndex_hard_cut:
  assumes long: "MAX_LENGTH < length s" and no: "\<forall>i\<le>MAX_LENGTH. s ! i \<noteq> NL"
  shows "nextSplitIndex s = int MAX_LENGTH"
proof -
  let ?p = "take (Suc MAX_LENGTH) s"
  have "NL \<notin> set ?p"
  proof
    assume "NL \<in> set ?p"
    then obtain i where "i < length ?p" "?p ! i = NL" by (metis in_set_conv_nth)
    then show False using no by simp
  qed
  then have "lastIndexOf ?p NL = - 1" by (rule lastIndexOf_none)
  then show ?thesis by (simp add: nextSplitIndex_def lastIndexOfFrom_def)
qed

definition exampleA :: jschar where "exampleA = 0x41"
definition exampleB :: jschar where "exampleB = 0x42"

definition longOutput :: jsstring where
  "longOutput = replicate 4000 exampleA @ [NL] @ replicate 1000 exampleB"

lemma trim_replicate: "\<not> isWhiteSpace c \<Longrightarrow> trim (replicate n c) = replicate n c"
  by (rule trim_trimmed) (cases n, auto simp: trimmed_def)

lemma nextSplitIndex_longOutput: "nextSplitIndex longOutput = 4000"
proof -
  have "take (Suc MAX_LENGTH) longOutput = replicate 4000 exampleA @ NL # replicate 96 exampleB"
    by (simp add: longOutput_def MAX_LENGTH_def)
  moreover have "NL \<notin> set (replicate 96 exampleB)" by (simp add: NL_def exampleB_def)
  then have "lastIndexOf (replicate 4000 exampleA @ NL # replicate 96 exampleB) NL
      = int (length (replicate 4000 exampleA))"
    by (rule lastIndexOf_last)
  ultimately have "lastIndexOf (take (Suc MAX_LENGTH) longOutput) NL = int (length (replicate 4000 exampleA))"
    by (simp only:)
  then show ?thesis by (simp add: nextSplitIndex_def lastIndexOfFrom_def)
qed

lemma splitChunks_longOutput:
  "splitChunks longOutput = [replicate 4000 exampleA, replicate 1000 exampleB]"
proof -
  have long: "MAX_LENGTH < length longOutput" by (simp add: longOutput_def MAX_LENGTH_def)
  have a: "\<not> isWhiteSpace exampleA" by (simp add: isWhiteSpace_def exampleA_def)
  have b: "\<not> isWhiteSpace exampleB" by (simp add: isWhiteSpace_def exampleB_def)
  have c1: "slice longOutput 0 4000 = replicate 4000 exampleA"
    by (simp add: slice_take longOutput_def)
  have "sliceFrom longOutput 4000 = NL # replicate 1000 exampleB"
    by (simp add: sliceFrom_drop longOutput_def)
  then have c2: "trim (sliceFrom longOutput 4000) = replicate 1000 exampleB"
    using b trim_replicate [OF b, of 1000]
    by (simp add: trim_def isWhiteSpace_NL)
  have "splitChunks (replicate 1000 exampleB) = [replicate 1000 exampleB]"
    by (simp add: splitChunks_short MAX_LENGTH_def)
  then show ?thesis
    using splitChunks_long [OF long] c1 c2 trim_replicate [OF a, of 4000]
    by (simp add: nextSplitIndex_longOutput)
qed




lemma call_ok: "fails w tr operation = None \<Longrightarrow> call w operation tr = (Inr (), tr @ [Call operation None])"
  by (simp add: call_def callV_def)

lemma call_fail: "fails w tr operation = Some e \<Longrightarrow> call w operation tr = (Inl e, tr @ [Call operation (Some e)])"
  by (simp add: call_def callV_def)

lemma andThen_Inr: "m tr = (Inr x, tr') \<Longrightarrow> andThen m f tr = f x tr'"
  by (simp add: andThen_def)

lemma andThen_Inl: "m tr = (Inl e, tr') \<Longrightarrow> andThen m f tr = (Inl e, tr')"
  by (simp add: andThen_def)

text \<open>Lines 585-593: what the removal of the job link can add to the trace.\<close>

definition cleanupEvents :: "world \<Rightarrow> jsstring \<Rightarrow> event list \<Rightarrow> event list" where
  "cleanupEvents w jobLink tr =
     (case fails w tr (Lstat jobLink) of
        Some e \<Rightarrow> [Call (Lstat jobLink) (Some e)]
      | None \<Rightarrow>
          if lstat_isSymlink w tr jobLink
          then [Call (Lstat jobLink) None,
                Call (Remove jobLink False) (fails w (tr @ [Call (Lstat jobLink) None]) (Remove jobLink False))]
          else [Call (Lstat jobLink) None])"

lemma cleanup_run:
  "tryCatch
     (andThen (callV w (Lstat jobLink) (\<lambda>tr. lstat_isSymlink w tr jobLink))
        (\<lambda>isSymlink. if isSymlink then call w (Remove jobLink False) else ret ()))
     (\<lambda>_. ret ()) tr
   = (Inr (), tr @ cleanupEvents w jobLink tr)"
  by (simp add: tryCatch_def andThen_def callV_def call_def ret_def cleanupEvents_def
      split: option.splits)

lemma deliverAndRetire_cases:
  fixes w logPath jobDir jobName meta outp tr
  defines "chat \<equiv> chatId meta"
    and "reply \<equiv> messageId meta"
    and "chunks \<equiv> splitChunks (convert w outp)"
    and "dest \<equiv> join w [jobDir, jobName]"
    and "jobLink \<equiv> join w [DATA_DIR w, jobName @ js ''.d'']"
  defines "delivered \<equiv> Call (SendChatAction chat) None # map (sent chat reply) chunks"
  defines "R \<equiv> deliverAndRetire w logPath jobDir jobName meta outp tr"
  shows "(\<exists>e. R = (Inl e, tr @ [Call (SendChatAction chat) (Some e)]))
       \<or> (\<exists>n e. n < length chunks \<and>
            R = (Inl e, tr @ Call (SendChatAction chat) None # map (sent chat reply) (take n chunks)
                     @ [Call (SendMessage chat (chunks ! n) reply) (Some e)]))
       \<or> (\<exists>e. R = (Inl e, tr @ delivered @ [Call (Rename logPath dest) (Some e)]))
       \<or> R = (Inr (), tr @ delivered @ Call (Rename logPath dest) None
                  # cleanupEvents w jobLink (tr @ delivered @ [Call (Rename logPath dest) None])
                  @ [ConsoleLog (SentResponse jobName chat)])"
proof (cases "fails w tr (SendChatAction chat)")
  case (Some e)
  then have "R = (Inl e, tr @ [Call (SendChatAction chat) (Some e)])"
    unfolding R_def deliverAndRetire_def chat_def by (simp add: andThen_Inl [OF call_fail])
  then show ?thesis by blast
next
  case None
  let ?tr1 = "tr @ [Call (SendChatAction chat) None]"
  define after where "after = (\<lambda>u::unit.
     andThen (call w (Rename logPath dest)) (\<lambda>_.
       andThen
          (tryCatch
             (andThen (callV w (Lstat jobLink) (\<lambda>tr. lstat_isSymlink w tr jobLink))
                (\<lambda>isSymlink.
                   if isSymlink then call w (Remove jobLink False) else ret ()))
             (\<lambda>_. ret ()))
          (\<lambda>_. consoleLog (SentResponse jobName chat))))"
  have R1: "R = andThen (sendAll w chat reply chunks) after ?tr1"
    using None
    unfolding R_def deliverAndRetire_def chat_def reply_def chunks_def dest_def jobLink_def
        after_def sendSplitMessage_def sendSplitLoop_sendAll Let_def
    by (simp add: andThen_Inr [OF call_ok])
  from sendAll_cases [of w chat reply chunks ?tr1] show ?thesis
  proof
    assume ok: "sendAll w chat reply chunks ?tr1 = (Inr (), ?tr1 @ map (sent chat reply) chunks)"
    have tr2: "?tr1 @ map (sent chat reply) chunks = tr @ delivered" by (simp add: delivered_def)
    have R2: "R = after () (tr @ delivered)" using R1 ok tr2 by (simp add: andThen_def)
    show ?thesis
    proof (cases "fails w (tr @ delivered) (Rename logPath dest)")
      case (Some e)
      then have "R = (Inl e, tr @ delivered @ [Call (Rename logPath dest) (Some e)])"
        using R2 by (simp add: after_def andThen_Inl [OF call_fail])
      then show ?thesis by blast
    next
      case None
      then have "R = (Inr (), tr @ delivered @ Call (Rename logPath dest) None
                  # cleanupEvents w jobLink (tr @ delivered @ [Call (Rename logPath dest) None])
                  @ [ConsoleLog (SentResponse jobName chat)])"
        using R2
        by (simp add: after_def andThen_Inr [OF call_ok] andThen_Inr [OF cleanup_run] consoleLog_def)
      then show ?thesis by blast
    qed
  next
    assume "\<exists>n e. n < length chunks \<and> sendAll w chat reply chunks ?tr1 =
        (Inl e, ?tr1 @ map (sent chat reply) (take n chunks) @ [Call (SendMessage chat (chunks ! n) reply) (Some e)])"
    then obtain n e where n: "n < length chunks" and
      f: "sendAll w chat reply chunks ?tr1 =
        (Inl e, ?tr1 @ map (sent chat reply) (take n chunks) @ [Call (SendMessage chat (chunks ! n) reply) (Some e)])"
      by blast
    have "R = (Inl e, tr @ Call (SendChatAction chat) None # map (sent chat reply) (take n chunks)
                     @ [Call (SendMessage chat (chunks ! n) reply) (Some e)])"
      using R1 f by (simp add: andThen_def)
    then show ?thesis using n by blast
  qed
qed



lemma processJob_cases:
  fixes w scanDir jobName tr
  defines "logPath \<equiv> join w [scanDir, jobName]"
    and "metaPath \<equiv> getJobMeta w jobName"
  defines "tr1 \<equiv> tr @ [Call (ReadTextFile metaPath) None]"
  defines "tr2 \<equiv> tr1 @ [Call (ReadTextFile logPath) None]"
    and "metaText \<equiv> readTextFile_text w tr metaPath"
    and "fileText \<equiv> readTextFile_text w tr1 logPath"
  defines "R \<equiv> processJob w scanDir jobName tr"
  shows "(\<exists>e. R = (Inl e, tr @ [Call (ReadTextFile metaPath) (Some e)]))
       \<or> (\<exists>e. R = (Inl e, tr1))
       \<or> (\<exists>e. R = (Inl e, tr1 @ [Call (ReadTextFile logPath) (Some e)]))
       \<or> (fails w tr (ReadTextFile metaPath) = None \<and> (\<exists>meta. parseJobMeta w metaText = Inr meta)
           \<and> fails w tr1 (ReadTextFile logPath) = None \<and> jobOutput fileText = []
           \<and> R = (Inr (), tr2 @ [ConsoleLog (EmptyOutput jobName)]))
       \<or> (\<exists>meta. fails w tr (ReadTextFile metaPath) = None \<and> parseJobMeta w metaText = Inr meta
           \<and> fails w tr1 (ReadTextFile logPath) = None \<and> jobOutput fileText \<noteq> []
           \<and> R = deliverAndRetire w logPath (getJobDir w jobName) jobName meta (jobOutput fileText) tr2)"
proof (cases "fails w tr (ReadTextFile metaPath)")
  case (Some e)
  then have "R = (Inl e, tr @ [Call (ReadTextFile metaPath) (Some e)])"
    unfolding R_def processJob_def Let_def metaPath_def
    by (simp add: andThen_def readTextFile_def callV_def)
  then show ?thesis by blast
next
  case None
  note m = None
  show ?thesis
  proof (cases "parseJobMeta w metaText")
    case (Inl e)
    then have "R = (Inl e, tr1)"
      using m unfolding R_def processJob_def Let_def metaPath_def tr1_def metaText_def
      by (simp add: andThen_def readTextFile_def callV_def)
    then show ?thesis by blast
  next
    case (Inr meta)
    show ?thesis
    proof (cases "fails w tr1 (ReadTextFile logPath)")
      case (Some e)
      then have "R = (Inl e, tr1 @ [Call (ReadTextFile logPath) (Some e)])"
        using m Inr unfolding R_def processJob_def Let_def metaPath_def tr1_def metaText_def logPath_def
        by (simp add: andThen_def readTextFile_def callV_def)
      then show ?thesis by blast
    next
      case None
      have R': "R = (if jobOutput fileText = [] then consoleLog (EmptyOutput jobName) tr2
                else deliverAndRetire w logPath (getJobDir w jobName) jobName meta (jobOutput fileText) tr2)"
        using m Inr None
        unfolding R_def processJob_def Let_def metaPath_def tr1_def tr2_def metaText_def logPath_def fileText_def
        by (simp add: andThen_def readTextFile_def callV_def)
      show ?thesis
      proof (cases "jobOutput fileText = []")
        case True
        then show ?thesis using R' m Inr None by (simp add: consoleLog_def)
      next
        case False
        then show ?thesis using R' m Inr None by simp
      qed
    qed
  qed
qed



fun isDeliveryCall :: "event \<Rightarrow> bool" where
  "isDeliveryCall (Call (SendChatAction _) _) = True"
| "isDeliveryCall (Call (SendMessage _ _ _) _) = True"
| "isDeliveryCall _ = False"

fun isRetireCall :: "event \<Rightarrow> bool" where
  "isRetireCall (Call (Rename _ _) _) = True"
| "isRetireCall (Call (Remove _ _) _) = True"
| "isRetireCall _ = False"

fun messageText :: "event \<Rightarrow> jsstring list" where
  "messageText (Call (SendMessage _ t _) _) = [t]"
| "messageText _ = []"

definition messagesSent :: "event list \<Rightarrow> jsstring list" where
  "messagesSent tr = concat (map messageText tr)"

lemma emitted_append: "m tr = (r, tr @ evs) \<Longrightarrow> emitted m tr = evs"
  by (simp add: emitted_def)

lemma messagesSent_append: "messagesSent (xs @ ys) = messagesSent xs @ messagesSent ys"
  by (simp add: messagesSent_def)

lemma messagesSent_Cons: "messagesSent (x # xs) = messageText x @ messagesSent xs"
  by (simp add: messagesSent_def)

lemma messagesSent_Nil: "messagesSent [] = []"
  by (simp add: messagesSent_def)

lemma messagesSent_sent: "messagesSent (map (sent chat reply) cs) = cs"
  by (induction cs) (simp_all add: messagesSent_def sent_def)

lemma messagesSent_cleanup: "messagesSent (cleanupEvents w jobLink tr) = []"
  by (simp add: cleanupEvents_def messagesSent_def split: option.splits)

lemma retire_sent: "\<not> isRetireCall (sent chat reply c)"
  by (simp add: sent_def)


section \<open>A test world\<close>

text \<open>
  The stubs of the repository's tests as a world: no call fails, \<open>getFile\<close>
  answers \<open>mock/path\<close>, the queue prints the job name \<open>,job\<close>, every
  \<open>meta.json\<close> parses to chat 123 and message 456, and every file read returns
  the given text. A directory holds the job file \<open>,job\<close> and a file \<open>notes.txt\<close>.
  Paths are joined with a slash and the escaping leaves the text as it is.
\<close>

definition posixBasename :: "jsstring \<Rightarrow> jsstring" where
  "posixBasename p = rev (takeWhile (\<lambda>c. c \<noteq> 0x2F) (rev p))"

definition posixDirname :: "jsstring \<Rightarrow> jsstring" where
  "posixDirname p = rev (drop 1 (dropWhile (\<lambda>c. c \<noteq> 0x2F) (rev p)))"

definition testWorld :: "jsstring \<Rightarrow> world" where
  "testWorld fileText =
     \<lparr> fails = (\<lambda>_ _. None),
       getFile_file_path = (\<lambda>_ _. Some (js ''mock/path'')),
       fetch_response = (\<lambda>_ _. \<lparr> resp_ok = True, resp_status = 200,
                                 resp_statusText = js ''OK'', resp_body = [] \<rparr>),
       nq_output = (\<lambda>_. \<lparr> out_success = True, out_stdout = js '',job'', out_stderr = [] \<rparr>),
       readTextFile_text = (\<lambda>_ _. fileText),
       lstat_isSymlink = (\<lambda>_ _. True),
       readDir_entries = (\<lambda>_ _. [\<lparr> entry_name = js '',job'', entry_isFile = True \<rparr>,
                                   \<lparr> entry_name = js ''notes.txt'', entry_isFile = True \<rparr>]),
       join = joinWith (js ''/''),
       basename = posixBasename,
       dirname = posixDirname,
       convert = (\<lambda>t. t),
       parseJobMeta = (\<lambda>_. Inr \<lparr> chatId = 123, messageId = 456, userId = None \<rparr>),
       stringifyJobMeta = (\<lambda>_. js ''{}''),
       bot_token = js ''mock-token'',
       execPath = js ''deno'',
       DATA_DIR = js ''/data'',
       QUEUE_DIR = js ''/queue'' \<rparr>"


subsection \<open>Evaluating the test world\<close>


definition emptyJobText :: jsstring where
  "emptyJobText = js ''exec deno task cli dispatch'' @ [NL, NL] @ js ''[exited with status 0.]'' @ [NL]"

definition shortJobText :: jsstring where
  "shortJobText = js ''exec deno'' @ [NL] @ js ''hello'' @ [NL] @ js ''world'' @ [NL] @ js ''[exited with status 0.]'' @ [NL]"

lemma testWorld_fields:
  "fails (testWorld t) = (\<lambda>_ _. None)"
  "readTextFile_text (testWorld t) = (\<lambda>_ _. t)"
  "lstat_isSymlink (testWorld t) = (\<lambda>_ _. True)"
  "join (testWorld t) = joinWith (js ''/'')"
  "convert (testWorld t) = (\<lambda>x. x)"
  "parseJobMeta (testWorld t) = (\<lambda>_. Inr \<lparr> chatId = 123, messageId = 456, userId = None \<rparr>)"
  "DATA_DIR (testWorld t) = js ''/data''"
  "QUEUE_DIR (testWorld t) = js ''/queue''"
  by (simp_all add: testWorld_def)

lemma testWorld_paths:
  "getJobDir (testWorld t) (js '',job'') = js ''/data/,job.d''"
  "getJobMeta (testWorld t) (js '',job'') = js ''/data/,job.d/meta.json''"
  "join (testWorld t) [js ''/queue/completed'', js '',job''] = js ''/queue/completed/,job''"
  by (simp_all add: getJobMeta_def getJobDir_def testWorld_fields js_def)

lemma trim_emptyJobText:
  "trim emptyJobText = js ''exec deno task cli dispatch'' @ [NL, NL] @ js ''[exited with status 0.]''"
  by (simp add: emptyJobText_def js_def NL_def trim_def isWhiteSpace_def)

lemma splitLines_emptyJobText:
  "splitLines (trim emptyJobText) = [js ''exec deno task cli dispatch'', [], js ''[exited with status 0.]'']"
  unfolding trim_emptyJobText by (simp add: js_def NL_def)

lemma interior_emptyJobText: "trim (stripHeaderFooter_spec (trim emptyJobText)) = []"
  unfolding stripHeaderFooter_spec_def splitLines_emptyJobText by (simp add: joinLines_def trim_def)

lemma trim_hello: "trim (js ''hello'') = js ''hello''"
  by (simp add: js_def trim_def isWhiteSpace_def)

lemma trim_shortJobText:
  "trim shortJobText = js ''exec deno'' @ [NL] @ js ''hello'' @ [NL] @ js ''world'' @ [NL] @ js ''[exited with status 0.]''"
  by (simp add: shortJobText_def js_def NL_def trim_def isWhiteSpace_def)

lemma splitLines_shortJobText:
  "splitLines (trim shortJobText) = [js ''exec deno'', js ''hello'', js ''world'', js ''[exited with status 0.]'']"
  unfolding trim_shortJobText by (simp add: js_def NL_def)

definition helloWorld :: jsstring where
  "helloWorld = js ''hello'' @ [NL] @ js ''world''"

lemma trim_helloWorld: "trim (joinLines [js ''hello'', js ''world'']) = helloWorld"
  by (simp add: helloWorld_def joinLines_def js_def NL_def trim_def isWhiteSpace_def)

lemma splitChunks_helloWorld: "splitChunks helloWorld = [helloWorld]"
  by (simp add: splitChunks_short MAX_LENGTH_def helloWorld_def js_def)


definition untrimmedText :: jsstring where
  "untrimmedText = js ''done'' @ [NL]"

lemma sendSplitMessage_cases:
  "sendSplitMessage w chat text replyTo tr = (Inr (), tr @ map (sent chat replyTo) (splitChunks (convert w text)))
   \<or> (\<exists>n e. n < length (splitChunks (convert w text)) \<and>
        sendSplitMessage w chat text replyTo tr =
          (Inl e, tr @ map (sent chat replyTo) (take n (splitChunks (convert w text)))
                  @ [Call (SendMessage chat (splitChunks (convert w text) ! n) replyTo) (Some e)]))"
  unfolding sendSplitMessage_def Let_def sendSplitLoop_sendAll by (rule sendAll_cases)



section \<open>Ingress: messages and attachments (lines 40-49, 159-245)\<close>

text \<open>
  The parts of a Telegram update the handler looks at. Every field of the context
  may be missing, as in \<open>Partial<Message>\<close>.
\<close>

record PhotoSize =
  photo_file_id :: jsstring

record Document =
  document_file_id :: jsstring
  document_file_name :: "jsstring option"
  document_mime_type :: "jsstring option"

record Audio =
  audio_file_id :: jsstring
  audio_file_name :: "jsstring option"
  audio_mime_type :: "jsstring option"

record Voice =
  voice_file_id :: jsstring
  voice_mime_type :: "jsstring option"

record ReplyMessage =
  reply_text :: "jsstring option"
  reply_caption :: "jsstring option"

record Message =
  message_id :: "int option"
  message_text :: "jsstring option"
  message_caption :: "jsstring option"
  message_photo :: "PhotoSize list option"
  message_document :: "Document option"
  message_video :: bool
  message_voice :: "Voice option"
  message_audio :: "Audio option"
  message_sticker :: bool
  reply_to_message :: "ReplyMessage option"

record User =
  user_id :: "int option"
  user_username :: "jsstring option"

record Chat =
  chat_id :: "int option"

record IngressContext =
  ctx_from :: "User option"
  ctx_chat :: "Chat option"
  ctx_message :: "Message option"

record AttachmentInfo =
  fileId :: jsstring
  fileName :: jsstring

text \<open>
  \<open>mimeToExt\<close>: the table is a plain object, looked up by key. (Keys that every
  JavaScript object inherits, such as \<open>constructor\<close>, are not MIME types and are
  left out.)
\<close>

definition mimeToExt :: "jsstring option \<Rightarrow> jsstring \<Rightarrow> jsstring" where
  "mimeToExt mime fallback =
     (case mime of
        None \<Rightarrow> fallback
      | Some m \<Rightarrow>
          if m = [] then fallback
          else (case map_of
                  [(js ''image/jpeg'', js ''.jpg''),
                   (js ''image/png'', js ''.png''),
                   (js ''image/gif'', js ''.gif''),
                   (js ''image/webp'', js ''.webp''),
                   (js ''audio/ogg'', js ''.ogg''),
                   (js ''audio/mpeg'', js ''.mp3''),
                   (js ''audio/mp4'', js ''.m4a''),
                   (js ''application/pdf'', js ''.pdf''),
                   (js ''text/plain'', js ''.txt'')] m of
                  Some ext \<Rightarrow> ext
                | None \<Rightarrow> fallback))"

definition getMsgType :: "Message option \<Rightarrow> jsstring" where
  "getMsgType message =
     (case message of
        None \<Rightarrow> js ''other''
      | Some m \<Rightarrow>
          if message_text m \<noteq> None \<and> message_text m \<noteq> Some [] then js ''text''
          else if message_photo m \<noteq> None then js ''photo''
          else (case message_document m of
                  Some d \<Rightarrow>
                    js ''document('' @ (case document_file_name d of Some n \<Rightarrow> n | None \<Rightarrow> js ''<unknown>'')
                      @ js '')''
                | None \<Rightarrow>
                    if message_video m then js ''video''
                    else if message_voice m \<noteq> None then js ''voice''
                    else if message_audio m \<noteq> None then js ''audio''
                    else if message_sticker m then js ''sticker''
                    else if reply_to_message m \<noteq> None then js ''reply''
                    else js ''other''))"

definition extractAttachments :: "Message option \<Rightarrow> AttachmentInfo list" where
  "extractAttachments message =
     (case message of
        None \<Rightarrow> []
      | Some m \<Rightarrow>
          (case message_photo m of
             Some photo \<Rightarrow>
               if length photo > 0
               then [\<lparr> fileId = photo_file_id (last photo), fileName = js ''photo.jpg'' \<rparr>]
               else []
           | None \<Rightarrow> [])
          @ (case message_document m of
               Some doc \<Rightarrow>
                 [\<lparr> fileId = document_file_id doc,
                    fileName = (case document_file_name doc of
                                  Some n \<Rightarrow> n
                                | None \<Rightarrow> js ''document'' @ mimeToExt (document_mime_type doc) []) \<rparr>]
             | None \<Rightarrow> [])
          @ (case message_audio m of
               Some audio \<Rightarrow>
                 [\<lparr> fileId = audio_file_id audio,
                    fileName = (case audio_file_name audio of
                                  Some n \<Rightarrow> n
                                | None \<Rightarrow> js ''audio'' @ mimeToExt (audio_mime_type audio) (js ''.mp3'')) \<rparr>]
             | None \<Rightarrow> [])
          @ (case message_voice m of
               Some voice \<Rightarrow>
                 [\<lparr> fileId = voice_file_id voice,
                    fileName = js ''voice'' @ mimeToExt (voice_mime_type voice) (js ''.ogg'') \<rparr>]
             | None \<Rightarrow> []))"

definition downloadAttachment ::
  "world \<Rightarrow> jsstring \<Rightarrow> jsstring \<Rightarrow> jsstring \<Rightarrow> jsstring io" where
  "downloadAttachment w fileIdent dir name =
     andThen (callV w (GetFile fileIdent) (\<lambda>tr. getFile_file_path w tr fileIdent)) (\<lambda>file_path.
       if file_path = None \<or> file_path = Some []
       then throw (Error (js ''No file_path returned for file_id: '' @ fileIdent))
       else
         (let url = js ''https://api.telegram.org/file/bot'' @ bot_token w @ js ''/''
                      @ (case file_path of Some fp \<Rightarrow> fp | None \<Rightarrow> [])
          in andThen (callV w (Fetch url) (\<lambda>tr. fetch_response w tr url)) (\<lambda>response.
               if \<not> resp_ok response
               then throw (Error (js ''Failed to download file: ''
                                   @ numberToString (resp_status response) @ js '' ''
                                   @ resp_statusText response))
               else
                 andThen (callV w (ArrayBuffer url) (\<lambda>_. resp_body response)) (\<lambda>data.
                   let filePath = join w [dir, name]
                   in andThen (call w (WriteFile filePath data)) (\<lambda>_. ret filePath)))))"

section \<open>Ingress: createIngressHandler (lines 247-410)\<close>

definition MODE_755 :: nat where
  "MODE_755 = 493"

text \<open>The \<open>for (const attach of attachments)\<close> loop of lines 301-317.\<close>

fun downloadAll ::
  "world \<Rightarrow> jsstring \<Rightarrow> AttachmentInfo list \<Rightarrow> jsstring list \<Rightarrow> (jsstring list) io" where
  "downloadAll w attachDir [] attachmentPaths = ret attachmentPaths"
| "downloadAll w attachDir (attach # rest) attachmentPaths =
     andThen
       (tryCatch
          (andThen (downloadAttachment w (fileId attach) attachDir (fileName attach)) (\<lambda>path.
           andThen (consoleLog (Downloaded path)) (\<lambda>_. ret (attachmentPaths @ [path]))))
          (\<lambda>err. andThen (consoleError (DownloadFailed (fileName attach) err))
                   (\<lambda>_. ret attachmentPaths)))
       (\<lambda>attachmentPaths'. downloadAll w attachDir rest attachmentPaths')"

text \<open>
  Lines 294-333: staging the attachments. The result is \<open>None\<close> when the handler
  returns at line 330, and the list of downloaded paths otherwise.
\<close>

definition stageAttachments ::
  "world \<Rightarrow> jsstring \<Rightarrow> jsstring \<Rightarrow> AttachmentInfo list \<Rightarrow> (jsstring list option) io" where
  "stageAttachments w messageDir text attachments =
     (if length attachments > 0 then
        (let attachDir = join w [messageDir, js ''attachments'']
         in andThen (call w (Mkdir attachDir MODE_755)) (\<lambda>_.
            andThen (downloadAll w attachDir attachments []) (\<lambda>attachmentPaths.
              if length attachmentPaths = 0 then
                andThen (tryCatch (call w (Remove attachDir True)) (\<lambda>_. ret ())) (\<lambda>_.
                  if text = [] then andThen (call w (Remove messageDir True)) (\<lambda>_. ret None)
                  else ret (Some attachmentPaths))
              else ret (Some attachmentPaths))))
      else ret (Some []))"

text \<open>Lines 335-345: the prompt.\<close>

definition manifestLines :: "jsstring list \<Rightarrow> jsstring list" where
  "manifestLines attachmentPaths =
     map (\<lambda>(p, i). numberToString (int i + 1) @ js ''. @'' @ p)
       (zip attachmentPaths [0..<length attachmentPaths])"

definition attachmentList :: "jsstring list \<Rightarrow> jsstring" where
  "attachmentList attachmentPaths = joinWith [NL] (manifestLines attachmentPaths)"

text \<open>
  The order the specification gives for the prompt: the quoted reply, then the
  attachment manifest, then the text, trimmed.
\<close>

definition promptQuoteFirst_spec :: "jsstring \<Rightarrow> jsstring \<Rightarrow> jsstring list \<Rightarrow> jsstring" where
  "promptQuoteFirst_spec text quoted attachmentPaths =
     trim (js ''Quote: '' @ quoted @ [NL, NL]
           @ js ''Attachments:'' @ [NL] @ attachmentList attachmentPaths @ [NL, NL]
           @ text)"

definition buildPrompt :: "jsstring \<Rightarrow> jsstring \<Rightarrow> jsstring list \<Rightarrow> jsstring" where
  "buildPrompt text quoted attachmentPaths =
     (let prompt = text;
          prompt = (if quoted \<noteq> [] then js ''Quote: '' @ quoted @ [NL, NL] @ prompt else prompt);
          prompt = (if length attachmentPaths > 0
                    then trim (js ''Attachments:'' @ [NL] @ attachmentList attachmentPaths
                               @ [NL, NL] @ prompt)
                    else prompt)
      in prompt)"

text \<open>Lines 385-405: the job link, \<open>meta.json\<close> and the final log line.\<close>

definition linkAndCommit ::
  "world \<Rightarrow> jsstring \<Rightarrow> int \<Rightarrow> int \<Rightarrow> int option \<Rightarrow> jsstring \<Rightarrow> unit io" where
  "linkAndCommit w messageDir chat message sender jobFile =
     (let jobLink = join w [DATA_DIR w, jobFile @ js ''.d'']
      in andThen
           (tryCatch (call w (Symlink messageDir jobLink))
              (\<lambda>err. consoleError (SymlinkFailed jobLink err)))
           (\<lambda>_.
              let meta = \<lparr> chatId = chat, messageId = message, userId = sender \<rparr>
              in andThen
                   (call w (WriteTextFile (join w [messageDir, js ''meta.json''])
                              (stringifyJobMeta w meta)))
                   (\<lambda>_. consoleLog (Queued jobFile sender))))"

text \<open>Lines 347-383: the second typing indicator, the prompt file and the queue.\<close>

definition enqueue ::
  "world \<Rightarrow> jsstring \<Rightarrow> jsstring \<Rightarrow> jsstring \<Rightarrow> int \<Rightarrow> int \<Rightarrow> int option \<Rightarrow> jsstring
     \<Rightarrow> unit io" where
  "enqueue w messageDir channel sourceId chat message sender prompt =
     andThen (call w ReplyWithChatAction) (\<lambda>_.
     andThen (call w (WriteTextFile (join w [messageDir, js ''prompt.txt'']) prompt)) (\<lambda>_.
     andThen
       (callV w
          (RunNq [execPath w, js ''task'', js ''--quiet'', js ''cli'', js ''dispatch'', js ''--id'',
                  channel @ js '':'' @ sourceId])
          (nq_output w))
       (\<lambda>result.
          let jobFile = trim (out_stdout result)
          in if jobFile = [] \<or> \<not> out_success result
             then consoleError (NqFailed (out_stderr result))
             else linkAndCommit w messageDir chat message sender jobFile)))"

text \<open>Lines 288-408: the body of the \<open>try\<close> block.\<close>

definition ingressBody ::
  "world \<Rightarrow> int \<Rightarrow> int \<Rightarrow> int option \<Rightarrow> jsstring \<Rightarrow> jsstring \<Rightarrow> AttachmentInfo list
     \<Rightarrow> unit io" where
  "ingressBody w chat message sender text quoted attachments =
     (let channel = js ''telegram'';
          sourceId = numberToString chat @ js ''_'' @ numberToString message;
          messageDir = getMessageDir w channel sourceId
      in andThen (call w (Mkdir messageDir MODE_755)) (\<lambda>_.
         andThen (stageAttachments w messageDir text attachments) (\<lambda>staged.
           case staged of
             None \<Rightarrow> ret ()
           | Some attachmentPaths \<Rightarrow>
               enqueue w messageDir channel sourceId chat message sender
                 (buildPrompt text quoted attachmentPaths))))"

text \<open>Lines 252-264: what the handler reads from the context.\<close>

definition ctxUserId :: "IngressContext \<Rightarrow> int option" where
  "ctxUserId ctx = (case ctx_from ctx of None \<Rightarrow> None | Some u \<Rightarrow> user_id u)"

definition ctxChatId :: "IngressContext \<Rightarrow> int option" where
  "ctxChatId ctx = (case ctx_chat ctx of None \<Rightarrow> None | Some c \<Rightarrow> chat_id c)"

definition ctxMessageId :: "IngressContext \<Rightarrow> int option" where
  "ctxMessageId ctx = (case ctx_message ctx of None \<Rightarrow> None | Some m \<Rightarrow> message_id m)"

definition isAllowed :: "jsstring set \<Rightarrow> IngressContext \<Rightarrow> bool" where
  "isAllowed allowedIds ctx =
     (case ctxUserId ctx of None \<Rightarrow> False | Some u \<Rightarrow> numberToString u \<in> allowedIds)"

definition isMissingId :: "IngressContext \<Rightarrow> bool" where
  "isMissingId ctx \<longleftrightarrow> ctxChatId ctx = None \<or> ctxMessageId ctx = None"

definition ctxUsername :: "IngressContext \<Rightarrow> jsstring" where
  "ctxUsername ctx =
     (case ctx_from ctx of
        None \<Rightarrow> js ''(unknown)''
      | Some u \<Rightarrow> (case user_username u of None \<Rightarrow> js ''(unknown)'' | Some n \<Rightarrow> n))"

definition ctxText :: "IngressContext \<Rightarrow> jsstring" where
  "ctxText ctx =
     (case ctx_message ctx of
        None \<Rightarrow> []
      | Some m \<Rightarrow>
          (case message_text m of
             Some t \<Rightarrow> t
           | None \<Rightarrow> (case message_caption m of Some c \<Rightarrow> c | None \<Rightarrow> [])))"

definition ctxQuote :: "IngressContext \<Rightarrow> jsstring" where
  "ctxQuote ctx =
     (case ctx_message ctx of
        None \<Rightarrow> []
      | Some m \<Rightarrow>
          (case reply_to_message m of
             None \<Rightarrow> []
           | Some r \<Rightarrow>
               (case reply_text r of
                  Some t \<Rightarrow> t
                | None \<Rightarrow> (case reply_caption r of Some c \<Rightarrow> c | None \<Rightarrow> []))))"

text \<open>Lines 266-271: the details of the first log line.\<close>

definition ctxDetails :: "IngressContext \<Rightarrow> jsstring list" where
  "ctxDetails ctx =
     [js ''type='' @ getMsgType (ctx_message ctx)]
     @ (if ctxText ctx \<noteq> [] then [js ''text='' @ ctxText ctx] else [])
     @ (if ctxQuote ctx \<noteq> [] then [js ''quote='' @ ctxQuote ctx] else [])
     @ (if length (extractAttachments (ctx_message ctx)) > 0
        then [js ''attachments='' @ numberToString (int (length (extractAttachments (ctx_message ctx))))]
        else [])"

text \<open>Line 277: the admission test.\<close>

definition rejected :: "jsstring set \<Rightarrow> IngressContext \<Rightarrow> bool" where
  "rejected allowedIds ctx \<longleftrightarrow>
     isMissingId ctx \<or> \<not> isAllowed allowedIds ctx
     \<or> (ctxText ctx = [] \<and> length (extractAttachments (ctx_message ctx)) = 0)"

text \<open>
  The handler. Past the admission test the chat id and the message id are present,
  so the two \<open>None\<close> cases below are never taken.
\<close>

definition createIngressHandler :: "world \<Rightarrow> jsstring set \<Rightarrow> IngressContext \<Rightarrow> unit io" where
  "createIngressHandler w allowedIds ctx =
     (let sender = ctxUserId ctx;
          text = ctxText ctx;
          attachments = extractAttachments (ctx_message ctx);
          quoted = ctxQuote ctx
      in andThen (consoleLog (IngressMessage (ctxUsername ctx) sender (ctxDetails ctx))) (\<lambda>_.
           if rejected allowedIds ctx
           then consoleLog (IngressSkipped (isMissingId ctx) (isAllowed allowedIds ctx))
           else
             andThen (call w ReplyWithChatAction) (\<lambda>_.
               case ctxChatId ctx of
                 None \<Rightarrow> ret ()
               | Some chat \<Rightarrow>
                   (case ctxMessageId ctx of
                      None \<Rightarrow> ret ()
                    | Some message \<Rightarrow>
                        tryCatch (ingressBody w chat message sender text quoted attachments)
                          (\<lambda>err. consoleError (IngressError err))))))"


text \<open>
  The context of the repository's test \<open>queues valid message\<close>: a text message
  from a given user in chat 456 with message id 789.
\<close>

definition textMessage :: "jsstring \<Rightarrow> Message" where
  "textMessage t =
     \<lparr> message_id = Some 789, message_text = Some t, message_caption = None,
       message_photo = None, message_document = None, message_video = False,
       message_voice = None, message_audio = None, message_sticker = False,
       reply_to_message = None \<rparr>"

definition testContext :: "int \<Rightarrow> Message \<Rightarrow> IngressContext" where
  "testContext sender m =
     \<lparr> ctx_from = Some \<lparr> user_id = Some sender, user_username = Some (js ''user'') \<rparr>,
       ctx_chat = Some \<lparr> chat_id = Some 456 \<rparr>,
       ctx_message = Some m \<rparr>"

text \<open>A photo with the caption \<open>hi\<close>, sent as a reply to a message that said \<open>earlier\<close>.\<close>

definition photoReply :: Message where
  "photoReply =
     \<lparr> message_id = Some 789, message_text = None, message_caption = Some (js ''hi''),
       message_photo = Some [\<lparr> photo_file_id = js ''small'' \<rparr>, \<lparr> photo_file_id = js ''large'' \<rparr>],
       message_document = None, message_video = False,
       message_voice = None, message_audio = None, message_sticker = False,
       reply_to_message = Some \<lparr> reply_text = Some (js ''earlier''), reply_caption = None \<rparr> \<rparr>"

text \<open>The test world with a chat service that rejects the typing indicator.\<close>

definition typingFailsWorld :: world where
  "typingFailsWorld =
     (testWorld [])
       \<lparr> fails := (\<lambda>_ operation.
            case operation of ReplyWithChatAction \<Rightarrow> Some (Error (js ''network'')) | _ \<Rightarrow> None) \<rparr>"

text \<open>The test world with a file system that refuses to create the job link.\<close>

definition symlinkFailsWorld :: world where
  "symlinkFailsWorld =
     (testWorld [])
       \<lparr> fails := (\<lambda>_ operation.
            case operation of Symlink _ _ \<Rightarrow> Some (Error (js ''exists'')) | _ \<Rightarrow> None) \<rparr>"

text \<open>
  The permission bits of a mode: owner, group and others are three bits each.
  \<open>ownerOnly\<close> follows the specification's words: read, write and execute for the
  owner and nothing for anyone else.
\<close>

definition ownerOnly :: "nat \<Rightarrow> bool" where
  "ownerOnly mode \<longleftrightarrow> (mode div 64) mod 8 = 7 \<and> mode mod 64 = 0"

fun isCall :: "event \<Rightarrow> bool" where
  "isCall (Call _ _) = True"
| "isCall _ = False"

section \<open>Every way a job can go\<close>


lemma sent_not_failed: "Call operation (Some err) \<notin> set (map (sent chat reply) cs)"
  by (auto simp: sent_def)

lemma sent_neq_failed: "Call operation (Some err) \<noteq> sent chat reply x"
  by (simp add: sent_def)

lemma sent_not_rename: "Call (Rename a b) out \<notin> set (map (sent chat reply) cs)"
  by (auto simp: sent_def)

lemma sent_not_rename_image: "Call (Rename a b) out \<notin> sent chat reply ` S"
  by (auto simp: sent_def)

lemma filter_retire_sent: "filter isRetireCall (map (sent chat reply) cs) = []"
  by (induction cs) (simp_all add: sent_def)

lemma cleanup_not_delivery: "x \<in> set (cleanupEvents w jobLink t) \<Longrightarrow> \<not> isDeliveryCall x"
  by (auto simp: cleanupEvents_def split: option.splits if_splits)

lemma cleanup_not_rename: "Call (Rename a b) out \<notin> set (cleanupEvents w jobLink t)"
  by (auto simp: cleanupEvents_def split: option.splits if_splits)

lemma cleanup_forms:
  "(\<exists>e. cleanupEvents w jobLink t = [Call (Lstat jobLink) (Some e)])
   \<or> (cleanupEvents w jobLink t = [Call (Lstat jobLink) None] \<and> \<not> lstat_isSymlink w t jobLink)
   \<or> (\<exists>out. cleanupEvents w jobLink t = [Call (Lstat jobLink) None, Call (Remove jobLink False) out]
        \<and> lstat_isSymlink w t jobLink)"
  by (auto simp: cleanupEvents_def split: option.splits)

text \<open>Every way a run of \<open>processJob\<close> can go, with the events it adds.\<close>

lemma processJob_outcomes:
  fixes w scanDir jobName tr
  defines "logPath \<equiv> join w [scanDir, jobName]"
    and "metaPath \<equiv> getJobMeta w jobName"
    and "dest \<equiv> join w [getJobDir w jobName, jobName]"
    and "jobLink \<equiv> join w [DATA_DIR w, jobName @ js ''.d'']"
  defines "reads \<equiv> [Call (ReadTextFile metaPath) None, Call (ReadTextFile logPath) None]"
    and "fileText \<equiv> readTextFile_text w (tr @ [Call (ReadTextFile metaPath) None]) logPath"
  defines "res \<equiv> fst (processJob w scanDir jobName tr)"
    and "new \<equiv> emitted (processJob w scanDir jobName) tr"
  shows "(\<exists>e. res = Inl e \<and> new = [Call (ReadTextFile metaPath) (Some e)])
       \<or> (\<exists>e. res = Inl e \<and> new = [Call (ReadTextFile metaPath) None])
       \<or> (\<exists>e. res = Inl e \<and> new = [Call (ReadTextFile metaPath) None, Call (ReadTextFile logPath) (Some e)])
       \<or> (res = Inr () \<and> new = reads @ [ConsoleLog (EmptyOutput jobName)])
       \<or> (\<exists>meta. parseJobMeta w (readTextFile_text w tr metaPath) = Inr meta \<and>
            ((\<exists>e. res = Inl e \<and> new = reads @ [Call (SendChatAction (chatId meta)) (Some e)])
           \<or> (\<exists>n e. n < length (splitChunks (convert w (jobOutput fileText))) \<and> res = Inl e \<and>
                 new = reads @ Call (SendChatAction (chatId meta)) None
                       # map (sent (chatId meta) (messageId meta)) (take n (splitChunks (convert w (jobOutput fileText))))
                       @ [Call (SendMessage (chatId meta) (splitChunks (convert w (jobOutput fileText)) ! n) (messageId meta)) (Some e)])
           \<or> (\<exists>e. res = Inl e \<and>
                 new = reads @ Call (SendChatAction (chatId meta)) None
                       # map (sent (chatId meta) (messageId meta)) (splitChunks (convert w (jobOutput fileText)))
                       @ [Call (Rename logPath dest) (Some e)])
           \<or> (res = Inr () \<and>
                 new = reads @ Call (SendChatAction (chatId meta)) None
                       # map (sent (chatId meta) (messageId meta)) (splitChunks (convert w (jobOutput fileText)))
                       @ Call (Rename logPath dest) None
                       # cleanupEvents w jobLink
                           (tr @ reads @ Call (SendChatAction (chatId meta)) None
                              # map (sent (chatId meta) (messageId meta)) (splitChunks (convert w (jobOutput fileText)))
                              @ [Call (Rename logPath dest) None])
                       @ [ConsoleLog (SentResponse jobName (chatId meta))])))"
proof -
  let ?R = "processJob w scanDir jobName tr"
  have E: "\<And>r evs. ?R = (r, tr @ evs) \<Longrightarrow> res = r \<and> new = evs"
    by (simp add: res_def new_def emitted_def)
  from processJob_cases [of w scanDir jobName tr]
  consider (metaFail) e where "?R = (Inl e, tr @ [Call (ReadTextFile metaPath) (Some e)])"
    | (parseFail) e where "?R = (Inl e, tr @ [Call (ReadTextFile metaPath) None])"
    | (logFail) e where "?R = (Inl e, tr @ [Call (ReadTextFile metaPath) None, Call (ReadTextFile logPath) (Some e)])"
    | (empty) "?R = (Inr (), tr @ reads @ [ConsoleLog (EmptyOutput jobName)])"
    | (deliver) meta where "parseJobMeta w (readTextFile_text w tr metaPath) = Inr meta"
        "?R = deliverAndRetire w logPath (getJobDir w jobName) jobName meta (jobOutput fileText) (tr @ reads)"
    unfolding metaPath_def logPath_def reads_def fileText_def by auto
  then show ?thesis
  proof cases
    case metaFail
    from E [OF this] show ?thesis by blast
  next
    case parseFail
    from E [OF this] show ?thesis by blast
  next
    case logFail
    from E [OF this] show ?thesis by blast
  next
    case empty
    from E [OF this] show ?thesis by blast
  next
    case deliver
    let ?chat = "chatId meta" and ?reply = "messageId meta"
    let ?chunks = "splitChunks (convert w (jobOutput fileText))"
    from deliverAndRetire_cases [of w logPath "getJobDir w jobName" jobName meta "jobOutput fileText" "tr @ reads"]
    consider (chatFail) e where "?R = (Inl e, tr @ reads @ [Call (SendChatAction ?chat) (Some e)])"
      | (sendFail) n e where "n < length ?chunks"
          "?R = (Inl e, tr @ reads @ Call (SendChatAction ?chat) None # map (sent ?chat ?reply) (take n ?chunks)
                     @ [Call (SendMessage ?chat (?chunks ! n) ?reply) (Some e)])"
      | (renameFail) e where
          "?R = (Inl e, tr @ reads @ Call (SendChatAction ?chat) None # map (sent ?chat ?reply) ?chunks
                     @ [Call (Rename logPath dest) (Some e)])"
      | (retired)
          "?R = (Inr (), tr @ reads @ Call (SendChatAction ?chat) None # map (sent ?chat ?reply) ?chunks
                  @ Call (Rename logPath dest) None
                  # cleanupEvents w jobLink (tr @ reads @ Call (SendChatAction ?chat) None
                        # map (sent ?chat ?reply) ?chunks @ [Call (Rename logPath dest) None])
                  @ [ConsoleLog (SentResponse jobName ?chat)])"
      unfolding deliver(2) dest_def jobLink_def by auto
    then show ?thesis
    proof cases
      case chatFail
      from E [OF this] deliver(1) show ?thesis by blast
    next
      case sendFail
      from E [OF sendFail(2)] sendFail(1) deliver(1) show ?thesis by blast
    next
      case renameFail
      from E [OF this] deliver(1) show ?thesis by blast
    next
      case retired
      from E [OF this] deliver(1) show ?thesis by blast
    qed
  qed
qed


section \<open>What a computation may add to the trace\<close>


text \<open>\<open>emits P m\<close>: whatever trace \<open>m\<close> starts from, it only adds events that satisfy \<open>P\<close>.\<close>

definition emits :: "(event \<Rightarrow> bool) \<Rightarrow> 'a io \<Rightarrow> bool" where
  "emits P m \<longleftrightarrow> (\<forall>tr. \<exists>evs. snd (m tr) = tr @ evs \<and> (\<forall>e\<in>set evs. P e))"

definition jobCall :: "world \<Rightarrow> jsstring \<Rightarrow> jsstring \<Rightarrow> op \<Rightarrow> bool" where
  "jobCall w scanDir jobName operation =
     (case operation of
        ReadTextFile p \<Rightarrow> p = getJobMeta w jobName \<or> p = join w [scanDir, jobName]
      | SendChatAction _ \<Rightarrow> True
      | SendMessage _ _ _ \<Rightarrow> True
      | Rename a b \<Rightarrow> a = join w [scanDir, jobName] \<and> b = join w [getJobDir w jobName, jobName]
      | Lstat p \<Rightarrow> p = join w [DATA_DIR w, jobName @ js ''.d'']
      | Remove p recursive \<Rightarrow> p = join w [DATA_DIR w, jobName @ js ''.d''] \<and> \<not> recursive
      | _ \<Rightarrow> False)"

fun jobEvent :: "world \<Rightarrow> jsstring \<Rightarrow> jsstring \<Rightarrow> event \<Rightarrow> bool" where
  "jobEvent w scanDir jobName (Call operation out) = jobCall w scanDir jobName operation"
| "jobEvent w scanDir jobName _ = True"

lemma emitsI: "(\<And>tr. \<exists>evs. snd (m tr) = tr @ evs \<and> (\<forall>e\<in>set evs. P e)) \<Longrightarrow> emits P m"
  by (simp add: emits_def)

lemma emits_emitted: "emits P m \<Longrightarrow> e \<in> set (emitted m tr) \<Longrightarrow> P e"
  unfolding emits_def emitted_def by (metis append_eq_conv_conj)

lemma emits_snd: "emits P m \<Longrightarrow> snd (m tr) = tr @ emitted m tr"
  unfolding emits_def emitted_def by (metis append_eq_conv_conj)

lemma emits_mono: "emits P m \<Longrightarrow> (\<And>e. P e \<Longrightarrow> Q e) \<Longrightarrow> emits Q m"
  unfolding emits_def by blast

lemma emits_ret: "emits P (ret x)"
  by (simp add: emits_def ret_def)

lemma emits_Pair: "emits P (Pair r)"
  by (simp add: emits_def)

lemma emits_consoleLog: "P (ConsoleLog l) \<Longrightarrow> emits P (consoleLog l)"
  by (simp add: emits_def consoleLog_def)

lemma emits_consoleError: "P (ConsoleError l) \<Longrightarrow> emits P (consoleError l)"
  by (simp add: emits_def consoleError_def)

lemma emits_callV: "(\<And>out. P (Call operation out)) \<Longrightarrow> emits P (callV w operation v)"
  by (simp add: emits_def callV_def split: option.splits)

lemma emits_call: "(\<And>out. P (Call operation out)) \<Longrightarrow> emits P (call w operation)"
  unfolding call_def by (rule emits_callV)

lemma emits_andThen:
  assumes m: "emits P m" and f: "\<And>x. emits P (f x)"
  shows "emits P (andThen m f)"
proof (rule emitsI)
  fix tr
  from m obtain evs where 1: "snd (m tr) = tr @ evs" "\<forall>e\<in>set evs. P e"
    unfolding emits_def by blast
  show "\<exists>evs. snd (andThen m f tr) = tr @ evs \<and> (\<forall>e\<in>set evs. P e)"
  proof (cases "fst (m tr)")
    case (Inl e)
    then have "andThen m f tr = (Inl e, tr @ evs)"
      using 1 by (cases "m tr") (simp add: andThen_def)
    then show ?thesis using 1 by simp
  next
    case (Inr x)
    then have a: "andThen m f tr = f x (tr @ evs)"
      using 1 by (cases "m tr") (simp add: andThen_def)
    from f [of x] obtain evs' where 2: "snd (f x (tr @ evs)) = (tr @ evs) @ evs'" "\<forall>e\<in>set evs'. P e"
      unfolding emits_def by blast
    have "snd (andThen m f tr) = tr @ (evs @ evs')" using a 2 by simp
    moreover have "\<forall>e\<in>set (evs @ evs'). P e" using 1 2 by auto
    ultimately show ?thesis by blast
  qed
qed

lemma emits_tryCatch:
  assumes m: "emits P m" and h: "\<And>e. emits P (h e)"
  shows "emits P (tryCatch m h)"
proof (rule emitsI)
  fix tr
  from m obtain evs where 1: "snd (m tr) = tr @ evs" "\<forall>e\<in>set evs. P e"
    unfolding emits_def by blast
  show "\<exists>evs. snd (tryCatch m h tr) = tr @ evs \<and> (\<forall>e\<in>set evs. P e)"
  proof (cases "fst (m tr)")
    case (Inr x)
    then have "tryCatch m h tr = (Inr x, tr @ evs)"
      using 1 by (cases "m tr") (simp add: tryCatch_def)
    then show ?thesis using 1 by simp
  next
    case (Inl e)
    then have a: "tryCatch m h tr = h e (tr @ evs)"
      using 1 by (cases "m tr") (simp add: tryCatch_def)
    from h [of e] obtain evs' where 2: "snd (h e (tr @ evs)) = (tr @ evs) @ evs'" "\<forall>e\<in>set evs'. P e"
      unfolding emits_def by blast
    have "snd (tryCatch m h tr) = tr @ (evs @ evs')" using a 2 by simp
    moreover have "\<forall>e\<in>set (evs @ evs'). P e" using 1 2 by auto
    ultimately show ?thesis by blast
  qed
qed

lemma emits_if: "(c \<Longrightarrow> emits P a) \<Longrightarrow> (\<not> c \<Longrightarrow> emits P b) \<Longrightarrow> emits P (if c then a else b)"
  by simp

lemma emits_sendAll:
  "(\<And>c out. P (Call (SendMessage chat c replyTo) out)) \<Longrightarrow> emits P (sendAll w chat replyTo cs)"
  by (induction cs) (auto intro!: emits_ret emits_andThen emits_call)

lemma emits_sendSplitMessage:
  "(\<And>c out. P (Call (SendMessage chat c replyTo) out)) \<Longrightarrow> emits P (sendSplitMessage w chat msg replyTo)"
  unfolding sendSplitMessage_def Let_def sendSplitLoop_sendAll by (rule emits_sendAll)

lemma emits_processJob: "emits (jobEvent w scanDir jobName) (processJob w scanDir jobName)"
  unfolding processJob_def deliverAndRetire_def readTextFile_def Let_def
  by (intro emits_andThen emits_tryCatch emits_if emits_callV emits_call emits_Pair emits_ret
        emits_consoleLog emits_sendSplitMessage)
     (simp_all add: jobCall_def)



fun anyJobEvent :: "world \<Rightarrow> jsstring \<Rightarrow> jsstring list \<Rightarrow> event \<Rightarrow> bool" where
  "anyJobEvent w scanDir names (Call operation out) = (\<exists>n\<in>set names. jobCall w scanDir n operation)"
| "anyJobEvent w scanDir names _ = True"

fun watchEvent :: "world \<Rightarrow> jsstring list \<Rightarrow> event \<Rightarrow> bool" where
  "watchEvent w paths (Call operation out) =
     (\<exists>path\<in>set paths. startsWith (basename w path) (js '','') \<and>
        (operation = Stat path \<or> operation = Stat (getJobMeta w (basename w path))
         \<or> jobCall w (dirname w path) (basename w path) operation))"
| "watchEvent w paths _ = True"

lemma jobEvent_anyJobEvent: "jobEvent w scanDir n e \<Longrightarrow> n \<in> set names \<Longrightarrow> anyJobEvent w scanDir names e"
  by (cases e) auto

lemma anyJobEvent_mono: "anyJobEvent w scanDir names e \<Longrightarrow> set names \<subseteq> set names' \<Longrightarrow> anyJobEvent w scanDir names' e"
  by (cases e) auto

lemma emits_processJobs: "emits (anyJobEvent w scanDir names) (processJobs w scanDir names)"
proof (induction names)
  case Nil
  show ?case by (simp add: emits_ret)
next
  case (Cons name rest)
  have 1: "emits (anyJobEvent w scanDir (name # rest)) (processJob w scanDir name)"
    by (rule emits_mono [OF emits_processJob]) (simp add: jobEvent_anyJobEvent)
  have 2: "emits (anyJobEvent w scanDir (name # rest)) (processJobs w scanDir rest)"
    by (rule emits_mono [OF Cons.IH]) (auto intro: anyJobEvent_mono)
  show ?case
    unfolding processJobs.simps
    by (intro emits_andThen emits_tryCatch emits_consoleError 1 2) simp
qed

lemma watchEvent_mono: "watchEvent w paths e \<Longrightarrow> set paths \<subseteq> set paths' \<Longrightarrow> watchEvent w paths' e"
  by (cases e) auto

lemma emits_watchPaths: "emits (watchEvent w paths) (watchPaths w processing paths)"
proof (induction paths arbitrary: processing)
  case Nil
  show ?case by (simp add: emits_ret)
next
  case (Cons path rest)
  have rest: "\<And>processing. emits (watchEvent w (path # rest)) (watchPaths w processing rest)"
    by (rule emits_mono [OF Cons.IH]) (auto intro: watchEvent_mono)
  show ?case
  proof (cases "startsWith (basename w path) (js '','')")
    case False
    then show ?thesis using rest by (simp add: Let_def)
  next
    case True
    have job: "emits (watchEvent w (path # rest)) (processJob w (dirname w path) (basename w path))"
      apply (rule emits_mono [OF emits_processJob])
      subgoal for e using True by (cases e) auto
      done
    show ?thesis
      unfolding watchPaths.simps Let_def
      by (intro emits_if rest emits_andThen emits_tryCatch emits_call emits_ret emits_consoleError job)
         (simp_all add: True)
  qed
qed

lemma watchPaths_skip:
  "\<forall>path\<in>set paths. \<not> startsWith (basename w path) (js '','') \<Longrightarrow>
   watchPaths w processing paths tr = (Inr processing, tr)"
  by (induction paths) (simp_all add: ret_def Let_def)

lemma watchLoop_skip:
  "\<forall>ev\<in>set events. \<forall>path\<in>set (event_paths ev). \<not> startsWith (basename w path) (js '','') \<Longrightarrow>
   watchLoop w processing events tr = (Inr (), tr)"
  by (induction events) (simp_all add: ret_def andThen_def watchPaths_skip)

lemma processJobs_Nil: "processJobs w scanDir [] tr = (Inr (), tr)"
  by (simp add: ret_def)

definition scanJobs :: "world \<Rightarrow> jsstring \<Rightarrow> event list \<Rightarrow> jsstring list" where
  "scanJobs w scanDir tr =
     sort (map entry_name
        (filter (\<lambda>entry. \<not> (\<not> entry_isFile entry \<or> \<not> startsWith (entry_name entry) (js '','')))
           (readDir_entries w tr scanDir)))"

lemma scanAndProcess_run:
  "scanAndProcess w scanDir tr =
     (case fails w tr (ReadDir scanDir) of
        Some e \<Rightarrow> (Inr (), tr @ [Call (ReadDir scanDir) (Some e), ConsoleError (ScanError e)])
      | None \<Rightarrow>
          tryCatch (processJobs w scanDir (scanJobs w scanDir tr)) (\<lambda>err. consoleError (ScanError err))
            (tr @ [Call (ReadDir scanDir) None]))"
  by (simp add: scanAndProcess_def scanJobs_def tryCatch_def andThen_def callV_def consoleError_def Let_def
      split: option.splits)

lemma scanAndProcess_events:
  assumes "e \<in> set (emitted (scanAndProcess w scanDir) tr)"
  shows "(\<exists>out. e = Call (ReadDir scanDir) out) \<or> anyJobEvent w scanDir (scanJobs w scanDir tr) e"
proof (cases "fails w tr (ReadDir scanDir)")
  case (Some err)
  then have "emitted (scanAndProcess w scanDir) tr = [Call (ReadDir scanDir) (Some err), ConsoleError (ScanError err)]"
    by (simp add: scanAndProcess_run emitted_def)
  with assms show ?thesis by auto
next
  case None
  let ?m = "tryCatch (processJobs w scanDir (scanJobs w scanDir tr)) (\<lambda>err. consoleError (ScanError err))"
  let ?tr = "tr @ [Call (ReadDir scanDir) None]"
  have em: "emits (anyJobEvent w scanDir (scanJobs w scanDir tr)) ?m"
    by (intro emits_tryCatch emits_processJobs emits_consoleError) simp
  have "snd (scanAndProcess w scanDir tr) = ?tr @ emitted ?m ?tr"
    using None emits_snd [OF em, of ?tr] by (simp add: scanAndProcess_run)
  then have "emitted (scanAndProcess w scanDir) tr = Call (ReadDir scanDir) None # emitted ?m ?tr"
    by (simp add: emitted_def)
  with assms have "e = Call (ReadDir scanDir) None \<or> e \<in> set (emitted ?m ?tr)" by simp
  then show ?thesis using emits_emitted [OF em] by blast
qed


subsection \<open>Two runs of the test world\<close>


definition sendFailsWorld :: "jsstring \<Rightarrow> world" where
  "sendFailsWorld fileText =
     (testWorld fileText)
       \<lparr> fails := (\<lambda>_ operation.
            case operation of SendMessage _ _ _ \<Rightarrow> Some (Error (js ''send failed'')) | _ \<Rightarrow> None) \<rparr>"

lemma sendFailsWorld_fields:
  "fails (sendFailsWorld t) = (\<lambda>_ operation.
            case operation of SendMessage _ _ _ \<Rightarrow> Some (Error (js ''send failed'')) | _ \<Rightarrow> None)"
  "readTextFile_text (sendFailsWorld t) = (\<lambda>_ _. t)"
  "lstat_isSymlink (sendFailsWorld t) = (\<lambda>_ _. True)"
  "join (sendFailsWorld t) = joinWith (js ''/'')"
  "convert (sendFailsWorld t) = (\<lambda>x. x)"
  "parseJobMeta (sendFailsWorld t) = (\<lambda>_. Inr \<lparr> chatId = 123, messageId = 456, userId = None \<rparr>)"
  "DATA_DIR (sendFailsWorld t) = js ''/data''"
  "QUEUE_DIR (sendFailsWorld t) = js ''/queue''"
  by (simp_all add: sendFailsWorld_def testWorld_def)

lemma jobOutput_shortJobText: "jobOutput shortJobText = helloWorld"
  unfolding jobOutput_spec stripHeaderFooter_spec_def splitLines_shortJobText
  using trim_helloWorld by simp

lemma helloWorld_nonempty: "helloWorld \<noteq> []"
  by (simp add: helloWorld_def)

lemma processJob_testWorld_run:
  "processJob (testWorld shortJobText) (js ''/queue/completed'') (js '',job'') [] =
     (Inr (), [Call (ReadTextFile (js ''/data/,job.d/meta.json'')) None,
               Call (ReadTextFile (js ''/queue/completed/,job'')) None,
               Call (SendChatAction 123) None,
               Call (SendMessage 123 helloWorld 456) None,
               Call (Rename (js ''/queue/completed/,job'') (js ''/data/,job.d/,job'')) None,
               Call (Lstat (js ''/data/,job.d'')) None,
               Call (Remove (js ''/data/,job.d'') False) None,
               ConsoleLog (SentResponse (js '',job'') 123)])"
proof -
  have paths: "getJobMeta (testWorld shortJobText) (js '',job'') = js ''/data/,job.d/meta.json''"
    "getJobDir (testWorld shortJobText) (js '',job'') = js ''/data/,job.d''"
    "joinWith (js ''/'') [js ''/queue/completed'', js '',job''] = js ''/queue/completed/,job''"
    "joinWith (js ''/'') [js ''/data/,job.d'', js '',job''] = js ''/data/,job.d/,job''"
    "joinWith (js ''/'') [js ''/data'', js '',job'' @ js ''.d''] = js ''/data/,job.d''"
    by (simp_all add: getJobMeta_def getJobDir_def testWorld_fields js_def)
  show ?thesis
    unfolding processJob_def deliverAndRetire_def sendSplitMessage_def sendSplitLoop_sendAll Let_def
      testWorld_fields paths
    by (simp add: andThen_def tryCatch_def readTextFile_def callV_def call_def ret_def
        consoleLog_def testWorld_fields jobOutput_shortJobText splitChunks_helloWorld helloWorld_nonempty)
qed

lemma processJob_sendFailsWorld_run:
  "processJob (sendFailsWorld shortJobText) (js ''/queue/completed'') (js '',job'') [] =
     (Inl (Error (js ''send failed'')),
      [Call (ReadTextFile (js ''/data/,job.d/meta.json'')) None,
       Call (ReadTextFile (js ''/queue/completed/,job'')) None,
       Call (SendChatAction 123) None,
       Call (SendMessage 123 helloWorld 456) (Some (Error (js ''send failed'')))])"
proof -
  have paths: "getJobMeta (sendFailsWorld shortJobText) (js '',job'') = js ''/data/,job.d/meta.json''"
    "getJobDir (sendFailsWorld shortJobText) (js '',job'') = js ''/data/,job.d''"
    "joinWith (js ''/'') [js ''/queue/completed'', js '',job''] = js ''/queue/completed/,job''"
    by (simp_all add: getJobMeta_def getJobDir_def sendFailsWorld_fields js_def)
  show ?thesis
    unfolding processJob_def deliverAndRetire_def sendSplitMessage_def sendSplitLoop_sendAll Let_def
      sendFailsWorld_fields paths
    by (simp add: andThen_def tryCatch_def readTextFile_def callV_def call_def ret_def
        consoleLog_def sendFailsWorld_fields jobOutput_shortJobText splitChunks_helloWorld helloWorld_nonempty)
qed





lemma set_scanJobs:
  "n \<in> set (scanJobs w scanDir tr) \<Longrightarrow>
   \<exists>entry\<in>set (readDir_entries w tr scanDir).
      entry_isFile entry \<and> startsWith (entry_name entry) (js '','') \<and> entry_name entry = n"
  by (auto simp: scanJobs_def)

lemma processJob_testWorld_run_from:
  "processJob (testWorld shortJobText) (js ''/queue/completed'') (js '',job'') tr =
     (Inr (), tr @ [Call (ReadTextFile (js ''/data/,job.d/meta.json'')) None,
               Call (ReadTextFile (js ''/queue/completed/,job'')) None,
               Call (SendChatAction 123) None,
               Call (SendMessage 123 helloWorld 456) None,
               Call (Rename (js ''/queue/completed/,job'') (js ''/data/,job.d/,job'')) None,
               Call (Lstat (js ''/data/,job.d'')) None,
               Call (Remove (js ''/data/,job.d'') False) None,
               ConsoleLog (SentResponse (js '',job'') 123)])"
proof -
  have paths: "getJobMeta (testWorld shortJobText) (js '',job'') = js ''/data/,job.d/meta.json''"
    "getJobDir (testWorld shortJobText) (js '',job'') = js ''/data/,job.d''"
    "joinWith (js ''/'') [js ''/queue/completed'', js '',job''] = js ''/queue/completed/,job''"
    "joinWith (js ''/'') [js ''/data/,job.d'', js '',job''] = js ''/data/,job.d/,job''"
    "joinWith (js ''/'') [js ''/data'', js '',job'' @ js ''.d''] = js ''/data/,job.d''"
    by (simp_all add: getJobMeta_def getJobDir_def testWorld_fields js_def)
  show ?thesis
    unfolding processJob_def deliverAndRetire_def sendSplitMessage_def sendSplitLoop_sendAll Let_def
      testWorld_fields paths
    by (simp add: andThen_def tryCatch_def readTextFile_def callV_def call_def ret_def
        consoleLog_def testWorld_fields jobOutput_shortJobText splitChunks_helloWorld helloWorld_nonempty)
qed

lemma scanJobs_testWorld: "scanJobs (testWorld t) d tr = [js '',job'']"
  by (simp add: scanJobs_def testWorld_def startsWith_def js_def)

lemma scanAndProcess_testWorld_run:
  "scanAndProcess (testWorld shortJobText) (js ''/queue/completed'') [] =
     (Inr (), [Call (ReadDir (js ''/queue/completed'')) None,
               Call (ReadTextFile (js ''/data/,job.d/meta.json'')) None,
               Call (ReadTextFile (js ''/queue/completed/,job'')) None,
               Call (SendChatAction 123) None,
               Call (SendMessage 123 helloWorld 456) None,
               Call (Rename (js ''/queue/completed/,job'') (js ''/data/,job.d/,job'')) None,
               Call (Lstat (js ''/data/,job.d'')) None,
               Call (Remove (js ''/data/,job.d'') False) None,
               ConsoleLog (SentResponse (js '',job'') 123)])"
  unfolding scanAndProcess_run scanJobs_testWorld
  by (simp add: testWorld_fields tryCatch_def andThen_def ret_def processJob_testWorld_run_from)

lemma testWorld_basename: "basename (testWorld t) = posixBasename"
  by (simp add: testWorld_def)

lemma basename_notes: "posixBasename (js ''/queue/completed/notes.txt'') = js ''notes.txt''"
  by (simp add: posixBasename_def js_def)



section \<open>Results and events of a computation\<close>


text \<open>
  \<open>post m Q\<close>: from any trace, \<open>m\<close> extends the trace, and its result and the events
  it adds satisfy \<open>Q\<close>.
\<close>

definition post :: "'a io \<Rightarrow> ((error + 'a) \<Rightarrow> event list \<Rightarrow> bool) \<Rightarrow> bool" where
  "post m Q \<longleftrightarrow> (\<forall>tr. \<exists>evs. snd (m tr) = tr @ evs \<and> Q (fst (m tr)) evs)"

lemma postI: "(\<And>tr. \<exists>evs. snd (m tr) = tr @ evs \<and> Q (fst (m tr)) evs) \<Longrightarrow> post m Q"
  by (simp add: post_def)

lemma postD: "post m Q \<Longrightarrow> snd (m tr) = tr @ emitted m tr \<and> Q (fst (m tr)) (emitted m tr)"
  unfolding post_def emitted_def by (metis append_eq_conv_conj)

lemma post_conseq: "post m Q \<Longrightarrow> (\<And>r evs. Q r evs \<Longrightarrow> Q' r evs) \<Longrightarrow> post m Q'"
  unfolding post_def by blast

lemma post_ret: "Q (Inr x) [] \<Longrightarrow> post (ret x) Q"
  by (simp add: post_def ret_def)

lemma post_throw: "Q (Inl e) [] \<Longrightarrow> post (throw e) Q"
  by (simp add: post_def throw_def)

lemma post_consoleLog: "Q (Inr ()) [ConsoleLog l] \<Longrightarrow> post (consoleLog l) Q"
  by (simp add: post_def consoleLog_def)

lemma post_consoleError: "Q (Inr ()) [ConsoleError l] \<Longrightarrow> post (consoleError l) Q"
  by (simp add: post_def consoleError_def)

lemma post_callV:
  "(\<And>e. Q (Inl e) [Call operation (Some e)]) \<Longrightarrow> (\<And>x. Q (Inr x) [Call operation None])
   \<Longrightarrow> post (callV w operation v) Q"
  by (simp add: post_def callV_def split: option.splits)

lemma post_call:
  "(\<And>e. Q (Inl e) [Call operation (Some e)]) \<Longrightarrow> Q (Inr ()) [Call operation None]
   \<Longrightarrow> post (call w operation) Q"
  unfolding call_def by (rule post_callV) auto

lemma post_andThen:
  assumes m: "post m Q1" and f: "\<And>x. post (f x) (Q2 x)"
    and l: "\<And>e evs. Q1 (Inl e) evs \<Longrightarrow> Q (Inl e) evs"
    and r: "\<And>x evs1 res evs2. Q1 (Inr x) evs1 \<Longrightarrow> Q2 x res evs2 \<Longrightarrow> Q res (evs1 @ evs2)"
  shows "post (andThen m f) Q"
proof (rule postI)
  fix tr
  from m obtain evs where 1: "snd (m tr) = tr @ evs" "Q1 (fst (m tr)) evs"
    unfolding post_def by blast
  show "\<exists>evs. snd (andThen m f tr) = tr @ evs \<and> Q (fst (andThen m f tr)) evs"
  proof (cases "fst (m tr)")
    case (Inl e)
    then have "andThen m f tr = (Inl e, tr @ evs)"
      using 1 by (cases "m tr") (simp add: andThen_def)
    then show ?thesis using 1 l Inl by simp
  next
    case (Inr x)
    then have a: "andThen m f tr = f x (tr @ evs)"
      using 1 by (cases "m tr") (simp add: andThen_def)
    from f [of x] obtain evs' where 2: "snd (f x (tr @ evs)) = (tr @ evs) @ evs'"
        "Q2 x (fst (f x (tr @ evs))) evs'"
      unfolding post_def by blast
    have "snd (andThen m f tr) = tr @ (evs @ evs')" using a 2 by simp
    moreover have "Q (fst (andThen m f tr)) (evs @ evs')" using a 1 2 Inr r by simp
    ultimately show ?thesis by blast
  qed
qed

lemma post_tryCatch:
  assumes m: "post m Q1" and h: "\<And>e. post (h e) (Q2 e)"
    and r: "\<And>x evs. Q1 (Inr x) evs \<Longrightarrow> Q (Inr x) evs"
    and l: "\<And>e evs1 res evs2. Q1 (Inl e) evs1 \<Longrightarrow> Q2 e res evs2 \<Longrightarrow> Q res (evs1 @ evs2)"
  shows "post (tryCatch m h) Q"
proof (rule postI)
  fix tr
  from m obtain evs where 1: "snd (m tr) = tr @ evs" "Q1 (fst (m tr)) evs"
    unfolding post_def by blast
  show "\<exists>evs. snd (tryCatch m h tr) = tr @ evs \<and> Q (fst (tryCatch m h tr)) evs"
  proof (cases "fst (m tr)")
    case (Inr x)
    then have "tryCatch m h tr = (Inr x, tr @ evs)"
      using 1 by (cases "m tr") (simp add: tryCatch_def)
    then show ?thesis using 1 r Inr by simp
  next
    case (Inl e)
    then have a: "tryCatch m h tr = h e (tr @ evs)"
      using 1 by (cases "m tr") (simp add: tryCatch_def)
    from h [of e] obtain evs' where 2: "snd (h e (tr @ evs)) = (tr @ evs) @ evs'"
        "Q2 e (fst (h e (tr @ evs))) evs'"
      unfolding post_def by blast
    have "snd (tryCatch m h tr) = tr @ (evs @ evs')" using a 2 by simp
    moreover have "Q (fst (tryCatch m h tr)) (evs @ evs')" using a 1 2 Inl l by simp
    ultimately show ?thesis by blast
  qed
qed

lemma emits_post: "emits P m \<longleftrightarrow> post m (\<lambda>r evs. \<forall>e\<in>set evs. P e)"
  by (simp add: emits_def post_def)

lemma emits_throw: "emits P (throw e)"
  by (simp add: emits_def throw_def)

lemma emits_downloadAttachment:
  "(\<And>operation out. (\<forall>p m. operation \<noteq> Mkdir p m) \<Longrightarrow> (\<forall>p c. operation \<noteq> WriteTextFile p c)
      \<Longrightarrow> (\<forall>a b. operation \<noteq> Symlink a b) \<Longrightarrow> P (Call operation out))
   \<Longrightarrow> emits P (downloadAttachment w f d n)"
  unfolding downloadAttachment_def Let_def
  by (intro emits_andThen emits_if emits_callV emits_call emits_ret emits_throw) simp_all


section \<open>Facts about the ingress handler\<close>


lemma numberToString_examples:
  "numberToString 123 = js ''123''"
  "numberToString 999 = js ''999''"
  "numberToString 456 = js ''456''"
  "numberToString 789 = js ''789''"
  by (simp_all add: numberToString_def js_def)

lemma js_123_neq_999: "js ''999'' \<noteq> js ''123''"
  by (simp add: js_def)

lemma testContext_fields:
  "ctxUserId (testContext s m) = Some s"
  "ctxChatId (testContext s m) = Some 456"
  "ctxMessageId (testContext s (textMessage t)) = Some 789"
  "ctxUsername (testContext s m) = js ''user''"
  "ctxText (testContext s (textMessage t)) = t"
  "ctxQuote (testContext s (textMessage t)) = []"
  "extractAttachments (ctx_message (testContext s (textMessage t))) = []"
  "getMsgType (ctx_message (testContext s (textMessage (js ''hello'')))) = js ''text''"
  by (simp_all add: testContext_def textMessage_def ctxUserId_def ctxChatId_def ctxMessageId_def
      ctxUsername_def ctxText_def ctxQuote_def extractAttachments_def getMsgType_def js_def)

lemma testContext_details:
  "ctxDetails (testContext s (textMessage (js ''hello''))) = [js ''type=text'', js ''text=hello'']"
  unfolding ctxDetails_def testContext_fields by (simp add: js_def)



definition testMessageDir :: jsstring where
  "testMessageDir = js ''/data/messages/telegram/456_789''"

definition testIngressLog :: event where
  "testIngressLog = ConsoleLog (IngressMessage (js ''user'') (Some 123) [js ''type=text'', js ''text=hello''])"

lemma testWorld_ingress_fields:
  "nq_output (testWorld t) = (\<lambda>_. \<lparr> out_success = True, out_stdout = js '',job'', out_stderr = [] \<rparr>)"
  "stringifyJobMeta (testWorld t) = (\<lambda>_. js ''{}'')"
  "execPath (testWorld t) = js ''deno''"
  by (simp_all add: testWorld_def)

lemma test_paths:
  "js ''/data'' @ js ''/'' @ js ''messages'' @ js ''/'' @ js ''telegram'' @ js ''/''
     @ numberToString 456 @ js ''_'' @ numberToString 789 = testMessageDir"
  "js ''/data'' @ js ''/'' @ js ''messages'' @ js ''/'' @ js ''telegram'' @ js ''/''
     @ numberToString 456 @ js ''_'' @ numberToString 789 @ js ''/'' @ js ''prompt.txt''
   = testMessageDir @ js ''/prompt.txt''"
  "js ''/data'' @ js ''/'' @ js ''messages'' @ js ''/'' @ js ''telegram'' @ js ''/''
     @ numberToString 456 @ js ''_'' @ numberToString 789 @ js ''/'' @ js ''meta.json''
   = testMessageDir @ js ''/meta.json''"
  "js ''/data'' @ js ''/'' @ js '',job'' @ js ''.d'' = js ''/data/,job.d''"
  "js ''telegram'' @ js '':'' @ numberToString 456 @ js ''_'' @ numberToString 789 = js ''telegram:456_789''"
  "trim (js '',job'') = js '',job''"
  "js '',job'' \<noteq> []"
  "js ''/'' @ js ''prompt.txt'' = js ''/prompt.txt''"
  "js ''/'' @ js ''meta.json'' = js ''/meta.json''"
  by (simp_all add: testMessageDir_def numberToString_examples js_def trim_def isWhiteSpace_def)

lemma accepted_test: "\<not> rejected {js ''123''} (testContext 123 (textMessage (js ''hello'')))"
  by (simp add: rejected_def isMissingId_def isAllowed_def testContext_fields numberToString_examples js_def)

lemma buildPrompt_text_only: "buildPrompt t [] [] = t"
  by (simp add: buildPrompt_def)

lemmas io_defs = andThen_def tryCatch_def callV_def call_def ret_def consoleLog_def consoleError_def

lemma createIngressHandler_testWorld_run:
  "createIngressHandler (testWorld []) {js ''123''} (testContext 123 (textMessage (js ''hello''))) [] =
     (Inr (),
      [testIngressLog,
       Call ReplyWithChatAction None,
       Call (Mkdir testMessageDir MODE_755) None,
       Call ReplyWithChatAction None,
       Call (WriteTextFile (testMessageDir @ js ''/prompt.txt'') (js ''hello'')) None,
       Call (RunNq [js ''deno'', js ''task'', js ''--quiet'', js ''cli'', js ''dispatch'', js ''--id'',
                    js ''telegram:456_789'']) None,
       Call (Symlink testMessageDir (js ''/data/,job.d'')) None,
       Call (WriteTextFile (testMessageDir @ js ''/meta.json'') (js ''{}'')) None,
       ConsoleLog (Queued (js '',job'') (Some 123))])"
  unfolding createIngressHandler_def ingressBody_def stageAttachments_def enqueue_def linkAndCommit_def
    Let_def testContext_fields testContext_details getMessageDir_def MESSAGES_DIR_def
    testWorld_fields testWorld_ingress_fields
  by (simp add: accepted_test io_defs testWorld_fields test_paths testIngressLog_def
      buildPrompt_text_only)



lemma typingFailsWorld_fails:
  "fails typingFailsWorld = (\<lambda>_ operation.
     case operation of ReplyWithChatAction \<Rightarrow> Some (Error (js ''network'')) | _ \<Rightarrow> None)"
  by (simp add: typingFailsWorld_def)

lemma tryCatch_absorbs: "fst (tryCatch m (\<lambda>err. consoleError (l err)) tr) = Inr ()"
  by (cases "m tr" rule: prod.exhaust; cases "fst (m tr)")
     (auto simp: tryCatch_def consoleError_def split: sum.splits)

text \<open>
  The only error that leaves the handler is the one of the first typing indicator
  (line 286), which is sent before the \<open>try\<close> block is entered.
\<close>

lemma ingress_raises_iff:
  "fst (createIngressHandler w allowedIds ctx tr) = Inl e \<longleftrightarrow>
     \<not> rejected allowedIds ctx
     \<and> fails w (tr @ [ConsoleLog (IngressMessage (ctxUsername ctx) (ctxUserId ctx) (ctxDetails ctx))])
          ReplyWithChatAction = Some e"
proof (cases "rejected allowedIds ctx")
  case True
  then show ?thesis
    by (simp add: createIngressHandler_def Let_def andThen_def consoleLog_def)
next
  case False
  let ?tr1 = "tr @ [ConsoleLog (IngressMessage (ctxUsername ctx) (ctxUserId ctx) (ctxDetails ctx))]"
  show ?thesis
  proof (cases "fails w ?tr1 ReplyWithChatAction")
    case (Some e')
    then show ?thesis using False
      by (simp add: createIngressHandler_def Let_def andThen_def consoleLog_def call_def callV_def)
  next
    case None
    then have "fst (createIngressHandler w allowedIds ctx tr) = Inr ()"
      using False
      by (simp add: createIngressHandler_def Let_def andThen_def consoleLog_def call_def callV_def
          ret_def tryCatch_absorbs split: option.splits)
    then show ?thesis using None False by simp
  qed
qed

fun mkdirMode755 :: "event \<Rightarrow> bool" where
  "mkdirMode755 (Call (Mkdir p mode) out) = (mode = MODE_755)"
| "mkdirMode755 _ = True"

lemma mkdirMode755_other: "\<forall>p m. operation \<noteq> Mkdir p m \<Longrightarrow> mkdirMode755 (Call operation out)"
  by (cases operation) auto

lemma emits_case_option:
  "(x = None \<Longrightarrow> emits P a) \<Longrightarrow> (\<And>y. x = Some y \<Longrightarrow> emits P (f y))
   \<Longrightarrow> emits P (case x of None \<Rightarrow> a | Some y \<Rightarrow> f y)"
  by (cases x) simp_all

lemma emits_downloadAll_mode: "emits mkdirMode755 (downloadAll w d atts acc)"
proof (induction atts arbitrary: acc)
  case Nil
  show ?case by (simp add: emits_ret)
next
  case (Cons a atts)
  show ?case
    unfolding downloadAll.simps
    by (intro emits_andThen emits_tryCatch emits_downloadAttachment emits_consoleLog emits_consoleError
          emits_ret Cons.IH)
       (simp_all add: mkdirMode755_other)
qed

lemma emits_ingressBody_mode: "emits mkdirMode755 (ingressBody w c m s t q atts)"
  unfolding ingressBody_def stageAttachments_def enqueue_def linkAndCommit_def Let_def
  by (intro emits_andThen emits_tryCatch emits_if emits_case_option emits_call emits_callV emits_ret
        emits_consoleLog emits_consoleError emits_downloadAll_mode)
     simp_all

lemma emits_createIngressHandler_mode: "emits mkdirMode755 (createIngressHandler w allowedIds ctx)"
  unfolding createIngressHandler_def Let_def
  by (intro emits_andThen emits_tryCatch emits_if emits_case_option emits_call emits_ret
        emits_consoleLog emits_consoleError emits_ingressBody_mode)
     simp_all



lemma first_event_andThen_call:
  assumes "\<And>x. emits P (f x)"
  shows "\<exists>out rest. snd (andThen (call w operation) f tr) = tr @ Call operation out # rest"
proof (cases "fails w tr operation")
  case (Some e)
  then have "snd (andThen (call w operation) f tr) = tr @ Call operation (Some e) # []"
    by (simp add: andThen_def call_def callV_def)
  then show ?thesis by blast
next
  case None
  then have "andThen (call w operation) f tr = f () (tr @ [Call operation None])"
    by (simp add: andThen_def call_def callV_def)
  then have "snd (andThen (call w operation) f tr)
      = tr @ Call operation None # emitted (f ()) (tr @ [Call operation None])"
    using emits_snd [OF assms, of "()" "tr @ [Call operation None]"] by simp
  then show ?thesis by blast
qed

lemma tryCatch_log_extends:
  "\<exists>rest. snd (tryCatch m (\<lambda>err. consoleError (l err)) tr) = snd (m tr) @ rest"
  by (cases "m tr" rule: prod.exhaust; cases "fst (m tr)")
     (auto simp: tryCatch_def consoleError_def split: sum.splits)

lemma ingressBody_starts_with_mkdir:
  "\<exists>out rest. snd (ingressBody w c m s t q atts tr)
     = tr @ Call (Mkdir (getMessageDir w (js ''telegram'') (numberToString c @ js ''_'' @ numberToString m))
                    MODE_755) out # rest"
  unfolding ingressBody_def Let_def
  by (rule first_event_andThen_call [where P = mkdirMode755])
     (unfold stageAttachments_def enqueue_def linkAndCommit_def Let_def,
      intro emits_andThen emits_tryCatch emits_if emits_case_option emits_call emits_callV emits_ret
        emits_consoleLog emits_consoleError emits_downloadAll_mode, simp_all)



fun isSymlinkCall :: "event \<Rightarrow> bool" where
  "isSymlinkCall (Call (Symlink _ _) _) = True"
| "isSymlinkCall _ = False"

text \<open>What lines 385-405 add to the trace, given how the two calls turn out.\<close>

definition commitEvents ::
  "world \<Rightarrow> jsstring \<Rightarrow> int \<Rightarrow> int \<Rightarrow> int option \<Rightarrow> jsstring \<Rightarrow> error option \<Rightarrow> error option
     \<Rightarrow> event list" where
  "commitEvents w messageDir chat message sender jobFile linked written =
     Call (Symlink messageDir (join w [DATA_DIR w, jobFile @ js ''.d''])) linked
     # (case linked of
          Some e \<Rightarrow> [ConsoleError (SymlinkFailed (join w [DATA_DIR w, jobFile @ js ''.d'']) e)]
        | None \<Rightarrow> [])
     @ Call (WriteTextFile (join w [messageDir, js ''meta.json''])
               (stringifyJobMeta w \<lparr> chatId = chat, messageId = message, userId = sender \<rparr>)) written
     # (case written of None \<Rightarrow> [ConsoleLog (Queued jobFile sender)] | Some e \<Rightarrow> [])"

definition commitResult :: "error option \<Rightarrow> error + unit" where
  "commitResult written = (case written of None \<Rightarrow> Inr () | Some e \<Rightarrow> Inl e)"

lemma linkAndCommit_run:
  "\<exists>linked written.
     linkAndCommit w messageDir chat message sender jobFile tr
       = (commitResult written, tr @ commitEvents w messageDir chat message sender jobFile linked written)"
proof -
  let ?link = "Symlink messageDir (join w [DATA_DIR w, jobFile @ js ''.d''])"
  let ?metaWrite = "WriteTextFile (join w [messageDir, js ''meta.json''])
               (stringifyJobMeta w \<lparr> chatId = chat, messageId = message, userId = sender \<rparr>)"
  obtain linked where l: "fails w tr ?link = linked" by blast
  let ?tr1 = "tr @ Call ?link linked
     # (case linked of
          Some e \<Rightarrow> [ConsoleError (SymlinkFailed (join w [DATA_DIR w, jobFile @ js ''.d'']) e)]
        | None \<Rightarrow> [])"
  obtain written where wr: "fails w ?tr1 ?metaWrite = written" by blast
  have "linkAndCommit w messageDir chat message sender jobFile tr
       = (commitResult written, tr @ commitEvents w messageDir chat message sender jobFile linked written)"
    using l wr
    by (cases linked; cases written)
       (simp_all add: linkAndCommit_def Let_def commitEvents_def commitResult_def io_defs)
  then show ?thesis by blast
qed



section \<open>The end of an ingress run\<close>


text \<open>
  \<open>commits\<close>: either no symbolic link was attempted, or the events end with a
  successful queue submission followed by what lines 385-405 add.
\<close>

definition commits ::
  "world \<Rightarrow> jsstring \<Rightarrow> int \<Rightarrow> int \<Rightarrow> int option \<Rightarrow> error + unit \<Rightarrow> event list \<Rightarrow> bool" where
  "commits w messageDir chat message sender res evs \<longleftrightarrow>
     (\<forall>e\<in>set evs. \<not> isSymlinkCall e)
     \<or> (\<exists>pre args jobFile linked written.
           (\<forall>e\<in>set pre. \<not> isSymlinkCall e) \<and>
           evs = pre @ Call (RunNq args) None
                 # commitEvents w messageDir chat message sender jobFile linked written \<and>
           res = commitResult written)"

lemma commits_quiet: "\<forall>e\<in>set evs. \<not> isSymlinkCall e \<Longrightarrow> commits w d c m s res evs"
  by (simp add: commits_def)

lemma commits_prefix:
  assumes "\<forall>e\<in>set evs1. \<not> isSymlinkCall e" and "commits w d c m s res evs2"
  shows "commits w d c m s res (evs1 @ evs2)"
  using assms(2) unfolding commits_def
proof
  assume "\<forall>e\<in>set evs2. \<not> isSymlinkCall e"
  with assms(1) show "(\<forall>e\<in>set (evs1 @ evs2). \<not> isSymlinkCall e)
     \<or> (\<exists>pre args jobFile linked written.
           (\<forall>e\<in>set pre. \<not> isSymlinkCall e) \<and>
           evs1 @ evs2 = pre @ Call (RunNq args) None # commitEvents w d c m s jobFile linked written \<and>
           res = commitResult written)"
    by auto
next
  assume "\<exists>pre args jobFile linked written.
           (\<forall>e\<in>set pre. \<not> isSymlinkCall e) \<and>
           evs2 = pre @ Call (RunNq args) None # commitEvents w d c m s jobFile linked written \<and>
           res = commitResult written"
  then obtain pre args jobFile linked written where
    p: "\<forall>e\<in>set pre. \<not> isSymlinkCall e"
    and e: "evs2 = pre @ Call (RunNq args) None # commitEvents w d c m s jobFile linked written"
    and r: "res = commitResult written"
    by blast
  have "\<forall>e\<in>set (evs1 @ pre). \<not> isSymlinkCall e" using assms(1) p by auto
  moreover have "evs1 @ evs2 = (evs1 @ pre) @ Call (RunNq args) None
      # commitEvents w d c m s jobFile linked written"
    using e by simp
  ultimately show "(\<forall>e\<in>set (evs1 @ evs2). \<not> isSymlinkCall e)
     \<or> (\<exists>pre args jobFile linked written.
           (\<forall>e\<in>set pre. \<not> isSymlinkCall e) \<and>
           evs1 @ evs2 = pre @ Call (RunNq args) None # commitEvents w d c m s jobFile linked written \<and>
           res = commitResult written)"
    using r by blast
qed

lemma post_commits_andThen:
  assumes m: "emits (\<lambda>e. \<not> isSymlinkCall e) m"
    and f: "\<And>x. post (f x) (commits w d c ms s)"
  shows "post (andThen m f) (commits w d c ms s)"
  by (rule post_andThen [where ?Q1.0 = "\<lambda>r evs. \<forall>e\<in>set evs. \<not> isSymlinkCall e"
        and ?Q2.0 = "\<lambda>x. commits w d c ms s"])
     (use m f in \<open>auto simp: emits_post [symmetric] intro: commits_quiet commits_prefix\<close>)

lemma post_commits_quiet:
  "emits (\<lambda>e. \<not> isSymlinkCall e) m \<Longrightarrow> post m (commits w d c ms s)"
  unfolding emits_post by (erule post_conseq) (rule commits_quiet)

lemma post_nq_then_commit:
  "post (andThen (callV w (RunNq args) (nq_output w))
           (\<lambda>result.
              let jobFile = trim (out_stdout result)
              in if jobFile = [] \<or> \<not> out_success result
                 then consoleError (NqFailed (out_stderr result))
                 else linkAndCommit w d c ms s jobFile))
        (commits w d c ms s)"
proof (rule postI)
  fix tr
  let ?m = "andThen (callV w (RunNq args) (nq_output w))
           (\<lambda>result.
              let jobFile = trim (out_stdout result)
              in if jobFile = [] \<or> \<not> out_success result
                 then consoleError (NqFailed (out_stderr result))
                 else linkAndCommit w d c ms s jobFile)"
  show "\<exists>evs. snd (?m tr) = tr @ evs \<and> commits w d c ms s (fst (?m tr)) evs"
  proof (cases "fails w tr (RunNq args)")
    case (Some e)
    then have "?m tr = (Inl e, tr @ [Call (RunNq args) (Some e)])"
      by (simp add: andThen_def callV_def)
    then show ?thesis by (simp add: commits_def)
  next
    case None
    let ?result = "nq_output w tr"
    let ?jobFile = "trim (out_stdout ?result)"
    let ?tr1 = "tr @ [Call (RunNq args) None]"
    show ?thesis
    proof (cases "?jobFile = [] \<or> \<not> out_success ?result")
      case True
      then have "?m tr = (Inr (), tr @ [Call (RunNq args) None, ConsoleError (NqFailed (out_stderr ?result))])"
        using None by (auto simp: andThen_def callV_def consoleError_def Let_def)
      then show ?thesis by (simp add: commits_def)
    next
      case False
      then have a: "?m tr = linkAndCommit w d c ms s ?jobFile ?tr1"
        using None by (auto simp: andThen_def callV_def Let_def)
      from linkAndCommit_run [of w d c ms s ?jobFile ?tr1]
      obtain linked written where
        "linkAndCommit w d c ms s ?jobFile ?tr1
           = (commitResult written, ?tr1 @ commitEvents w d c ms s ?jobFile linked written)"
        by blast
      with a have b: "?m tr = (commitResult written,
          tr @ ([] @ Call (RunNq args) None # commitEvents w d c ms s ?jobFile linked written))"
        by simp
      have "commits w d c ms s (commitResult written)
          ([] @ Call (RunNq args) None # commitEvents w d c ms s ?jobFile linked written)"
        unfolding commits_def
        apply (rule disjI2)
        apply (rule exI [of _ "[]"])
        apply (rule exI [of _ args])
        apply (rule exI [of _ "trim (out_stdout (nq_output w tr))"])
        apply (rule exI [of _ linked])
        apply (rule exI [of _ written])
        apply simp
        done
      with b show ?thesis by (metis fst_conv snd_conv)
    qed
  qed
qed



lemma not_symlink_other: "\<forall>a b. operation \<noteq> Symlink a b \<Longrightarrow> \<not> isSymlinkCall (Call operation out)"
  by (cases operation) auto

lemma emits_downloadAll_no_symlink: "emits (\<lambda>e. \<not> isSymlinkCall e) (downloadAll w d atts acc)"
proof (induction atts arbitrary: acc)
  case Nil
  show ?case by (simp add: emits_ret)
next
  case (Cons a atts)
  show ?case
    unfolding downloadAll.simps
    by (intro emits_andThen emits_tryCatch emits_downloadAttachment emits_consoleLog emits_consoleError
          emits_ret Cons.IH)
       (simp_all add: not_symlink_other)
qed

lemma emits_stageAttachments_no_symlink:
  "emits (\<lambda>e. \<not> isSymlinkCall e) (stageAttachments w d t atts)"
  unfolding stageAttachments_def Let_def
  by (intro emits_andThen emits_tryCatch emits_if emits_call emits_ret emits_downloadAll_no_symlink)
     simp_all

lemma post_case_option:
  "(x = None \<Longrightarrow> post a Q) \<Longrightarrow> (\<And>y. x = Some y \<Longrightarrow> post (f y) Q)
   \<Longrightarrow> post (case x of None \<Rightarrow> a | Some y \<Rightarrow> f y) Q"
  by (cases x) simp_all

lemma post_enqueue_commits:
  "post (enqueue w d channel sourceId c ms s prompt) (commits w d c ms s)"
  unfolding enqueue_def
  by (intro post_commits_andThen post_nq_then_commit emits_call) simp_all

lemma post_ingressBody_commits:
  "post (ingressBody w c ms s t q atts)
     (commits w (getMessageDir w (js ''telegram'') (numberToString c @ js ''_'' @ numberToString ms)) c ms s)"
  unfolding ingressBody_def Let_def
  by (intro post_commits_andThen post_case_option post_enqueue_commits post_commits_quiet
        emits_call emits_ret emits_stageAttachments_no_symlink)
     simp_all

text \<open>The same after the \<open>catch\<close> of line 406.\<close>

definition commitsOrLogs ::
  "world \<Rightarrow> jsstring \<Rightarrow> int \<Rightarrow> int \<Rightarrow> int option \<Rightarrow> error + unit \<Rightarrow> event list \<Rightarrow> bool" where
  "commitsOrLogs w messageDir chat message sender res evs \<longleftrightarrow>
     (\<forall>e\<in>set evs. \<not> isSymlinkCall e)
     \<or> (\<exists>pre args jobFile linked written.
           (\<forall>e\<in>set pre. \<not> isSymlinkCall e) \<and>
           evs = pre @ Call (RunNq args) None
                 # commitEvents w messageDir chat message sender jobFile linked written
                 @ (case written of None \<Rightarrow> [] | Some e \<Rightarrow> [ConsoleError (IngressError e)]) \<and>
           res = Inr ())"

lemma commitsOrLogs_quiet: "\<forall>e\<in>set evs. \<not> isSymlinkCall e \<Longrightarrow> commitsOrLogs w d c m s res evs"
  by (simp add: commitsOrLogs_def)

lemma commitsOrLogs_prefix:
  assumes "\<forall>e\<in>set evs1. \<not> isSymlinkCall e" and "commitsOrLogs w d c m s res evs2"
  shows "commitsOrLogs w d c m s res (evs1 @ evs2)"
  using assms(2) unfolding commitsOrLogs_def
proof
  assume "\<forall>e\<in>set evs2. \<not> isSymlinkCall e"
  with assms(1) have "\<forall>e\<in>set (evs1 @ evs2). \<not> isSymlinkCall e" by auto
  then show "(\<forall>e\<in>set (evs1 @ evs2). \<not> isSymlinkCall e)
     \<or> (\<exists>pre args jobFile linked written.
           (\<forall>e\<in>set pre. \<not> isSymlinkCall e) \<and>
           evs1 @ evs2 = pre @ Call (RunNq args) None # commitEvents w d c m s jobFile linked written
                 @ (case written of None \<Rightarrow> [] | Some e \<Rightarrow> [ConsoleError (IngressError e)]) \<and>
           res = Inr ())" ..
next
  assume "\<exists>pre args jobFile linked written.
           (\<forall>e\<in>set pre. \<not> isSymlinkCall e) \<and>
           evs2 = pre @ Call (RunNq args) None # commitEvents w d c m s jobFile linked written
                 @ (case written of None \<Rightarrow> [] | Some e \<Rightarrow> [ConsoleError (IngressError e)]) \<and>
           res = Inr ()"
  then obtain pre args jobFile linked written where
    p: "\<forall>e\<in>set pre. \<not> isSymlinkCall e"
    and e: "evs2 = pre @ Call (RunNq args) None # commitEvents w d c m s jobFile linked written
                 @ (case written of None \<Rightarrow> [] | Some e \<Rightarrow> [ConsoleError (IngressError e)])"
    and r: "res = Inr ()"
    by blast
  have "\<forall>e\<in>set (evs1 @ pre). \<not> isSymlinkCall e" using assms(1) p by auto
  moreover have "evs1 @ evs2 = (evs1 @ pre) @ Call (RunNq args) None
      # commitEvents w d c m s jobFile linked written
        @ (case written of None \<Rightarrow> [] | Some e \<Rightarrow> [ConsoleError (IngressError e)])"
    using e by simp
  ultimately show "(\<forall>e\<in>set (evs1 @ evs2). \<not> isSymlinkCall e)
     \<or> (\<exists>pre args jobFile linked written.
           (\<forall>e\<in>set pre. \<not> isSymlinkCall e) \<and>
           evs1 @ evs2 = pre @ Call (RunNq args) None # commitEvents w d c m s jobFile linked written
                 @ (case written of None \<Rightarrow> [] | Some e \<Rightarrow> [ConsoleError (IngressError e)]) \<and>
           res = Inr ())"
    using r by blast
qed

lemma commits_then_caught:
  assumes "commits w d c m s (Inl e) evs"
  shows "commitsOrLogs w d c m s (Inr ()) (evs @ [ConsoleError (IngressError e)])"
  using assms unfolding commits_def
proof
  assume "\<forall>e\<in>set evs. \<not> isSymlinkCall e"
  then show ?thesis by (simp add: commitsOrLogs_def)
next
  assume "\<exists>pre args jobFile linked written.
           (\<forall>e\<in>set pre. \<not> isSymlinkCall e) \<and>
           evs = pre @ Call (RunNq args) None # commitEvents w d c m s jobFile linked written \<and>
           Inl e = commitResult written"
  then obtain pre args jobFile linked written where
    p: "\<forall>e\<in>set pre. \<not> isSymlinkCall e"
    and ev: "evs = pre @ Call (RunNq args) None # commitEvents w d c m s jobFile linked written"
    and r: "Inl e = commitResult written"
    by blast
  from r have wr: "written = Some e" by (cases written) (simp_all add: commitResult_def)
  have "evs @ [ConsoleError (IngressError e)]
      = pre @ Call (RunNq args) None # commitEvents w d c m s jobFile linked written
        @ (case written of None \<Rightarrow> [] | Some e \<Rightarrow> [ConsoleError (IngressError e)])"
    using ev wr by simp
  with p show ?thesis unfolding commitsOrLogs_def by blast
qed

lemma commits_returned:
  assumes "commits w d c m s (Inr ()) evs"
  shows "commitsOrLogs w d c m s (Inr ()) evs"
  using assms unfolding commits_def
proof
  assume "\<forall>e\<in>set evs. \<not> isSymlinkCall e"
  then show ?thesis by (simp add: commitsOrLogs_def)
next
  assume "\<exists>pre args jobFile linked written.
           (\<forall>e\<in>set pre. \<not> isSymlinkCall e) \<and>
           evs = pre @ Call (RunNq args) None # commitEvents w d c m s jobFile linked written \<and>
           Inr () = commitResult written"
  then obtain pre args jobFile linked written where
    p: "\<forall>e\<in>set pre. \<not> isSymlinkCall e"
    and ev: "evs = pre @ Call (RunNq args) None # commitEvents w d c m s jobFile linked written"
    and r: "Inr () = commitResult written"
    by blast
  from r have wr: "written = None" by (cases written) (simp_all add: commitResult_def)
  have "evs = pre @ Call (RunNq args) None # commitEvents w d c m s jobFile linked written
        @ (case written of None \<Rightarrow> [] | Some e \<Rightarrow> [ConsoleError (IngressError e)])"
    using ev wr by simp
  with p show ?thesis unfolding commitsOrLogs_def by blast
qed

lemma post_caught_body:
  "post (tryCatch (ingressBody w c ms s t q atts) (\<lambda>err. consoleError (IngressError err)))
     (commitsOrLogs w (getMessageDir w (js ''telegram'') (numberToString c @ js ''_'' @ numberToString ms))
        c ms s)"
  by (rule post_tryCatch [OF post_ingressBody_commits,
        where ?Q2.0 = "\<lambda>e r evs. r = Inr () \<and> evs = [ConsoleError (IngressError e)]"])
     (auto intro: post_consoleError commits_returned commits_then_caught)

lemma post_commitsOrLogs_andThen:
  assumes m: "emits (\<lambda>e. \<not> isSymlinkCall e) m"
    and f: "\<And>x. post (f x) (commitsOrLogs w d c ms s)"
  shows "post (andThen m f) (commitsOrLogs w d c ms s)"
  by (rule post_andThen [where ?Q1.0 = "\<lambda>r evs. \<forall>e\<in>set evs. \<not> isSymlinkCall e"
        and ?Q2.0 = "\<lambda>x. commitsOrLogs w d c ms s"])
     (use m f in \<open>auto simp: emits_post [symmetric] intro: commitsOrLogs_quiet commitsOrLogs_prefix\<close>)

lemma post_if: "(c \<Longrightarrow> post a Q) \<Longrightarrow> (\<not> c \<Longrightarrow> post b Q) \<Longrightarrow> post (if c then a else b) Q"
  by simp

lemma post_createIngressHandler:
  assumes "ctxChatId ctx = Some c" and "ctxMessageId ctx = Some ms"
  shows "post (createIngressHandler w allowedIds ctx)
     (commitsOrLogs w (getMessageDir w (js ''telegram'') (numberToString c @ js ''_'' @ numberToString ms))
        c ms (ctxUserId ctx))"
proof -
  have skip: "post (consoleLog (IngressSkipped (isMissingId ctx) (isAllowed allowedIds ctx)))
     (commitsOrLogs w (getMessageDir w (js ''telegram'') (numberToString c @ js ''_'' @ numberToString ms))
        c ms (ctxUserId ctx))"
    by (rule post_consoleLog) (simp add: commitsOrLogs_def)
  show ?thesis
    unfolding createIngressHandler_def Let_def assms option.case
    by (intro post_commitsOrLogs_andThen post_if skip post_caught_body emits_consoleLog emits_call)
       simp_all
qed



lemma symlink_in_commitEvents:
  assumes "Call (Symlink target link) (Some err)
      \<in> set (commitEvents w d c m s jobFile linked written
              @ (case written of None \<Rightarrow> [] | Some e \<Rightarrow> [ConsoleError (IngressError e)]))"
  shows "target = d \<and> link = join w [DATA_DIR w, jobFile @ js ''.d''] \<and> linked = Some err"
  using assms by (cases linked; cases written) (auto simp: commitEvents_def)

lemma commitEvents_symlink_failed:
  "commitEvents w d c m s jobFile (Some err) written
     @ (case written of None \<Rightarrow> [] | Some e \<Rightarrow> [ConsoleError (IngressError e)])
   = [Call (Symlink d (join w [DATA_DIR w, jobFile @ js ''.d''])) (Some err),
      ConsoleError (SymlinkFailed (join w [DATA_DIR w, jobFile @ js ''.d'']) err),
      Call (WriteTextFile (join w [d, js ''meta.json''])
              (stringifyJobMeta w \<lparr> chatId = c, messageId = m, userId = s \<rparr>)) written,
      (case written of None \<Rightarrow> ConsoleLog (Queued jobFile s) | Some e \<Rightarrow> ConsoleError (IngressError e))]"
  by (cases written) (simp_all add: commitEvents_def)

lemma symlinkFailsWorld_fields:
  "fails symlinkFailsWorld = (\<lambda>_ operation.
     case operation of Symlink _ _ \<Rightarrow> Some (Error (js ''exists'')) | _ \<Rightarrow> None)"
  "join symlinkFailsWorld = joinWith (js ''/'')"
  "DATA_DIR symlinkFailsWorld = js ''/data''"
  "nq_output symlinkFailsWorld = (\<lambda>_. \<lparr> out_success = True, out_stdout = js '',job'', out_stderr = [] \<rparr>)"
  "stringifyJobMeta symlinkFailsWorld = (\<lambda>_. js ''{}'')"
  "execPath symlinkFailsWorld = js ''deno''"
  by (simp_all add: symlinkFailsWorld_def testWorld_def)

lemma createIngressHandler_symlinkFailsWorld_run:
  "createIngressHandler symlinkFailsWorld {js ''123''} (testContext 123 (textMessage (js ''hello''))) [] =
     (Inr (),
      [testIngressLog,
       Call ReplyWithChatAction None,
       Call (Mkdir testMessageDir MODE_755) None,
       Call ReplyWithChatAction None,
       Call (WriteTextFile (testMessageDir @ js ''/prompt.txt'') (js ''hello'')) None,
       Call (RunNq [js ''deno'', js ''task'', js ''--quiet'', js ''cli'', js ''dispatch'', js ''--id'',
                    js ''telegram:456_789'']) None,
       Call (Symlink testMessageDir (js ''/data/,job.d'')) (Some (Error (js ''exists''))),
       ConsoleError (SymlinkFailed (js ''/data/,job.d'') (Error (js ''exists''))),
       Call (WriteTextFile (testMessageDir @ js ''/meta.json'') (js ''{}'')) None,
       ConsoleLog (Queued (js '',job'') (Some 123))])"
  unfolding createIngressHandler_def ingressBody_def stageAttachments_def enqueue_def linkAndCommit_def
    Let_def testContext_fields testContext_details getMessageDir_def MESSAGES_DIR_def
    symlinkFailsWorld_fields
  by (simp add: accepted_test io_defs symlinkFailsWorld_fields test_paths testIngressLog_def
      buildPrompt_text_only)


section \<open>The prompt of an ingress run\<close>

text \<open>
  What a run of the handler writes is read off its events: the paths it logged as
  downloaded (line 313), and the first text file it wrote.
\<close>

fun downloadedPath :: "event \<Rightarrow> jsstring list" where
  "downloadedPath (ConsoleLog (Downloaded p)) = [p]"
| "downloadedPath _ = []"

definition downloadedPaths :: "event list \<Rightarrow> jsstring list" where
  "downloadedPaths evs = concat (map downloadedPath evs)"

fun firstWrite :: "event list \<Rightarrow> (jsstring \<times> jsstring) option" where
  "firstWrite [] = None"
| "firstWrite (Call (WriteTextFile p c) out # es) = Some (p, c)"
| "firstWrite (e # es) = firstWrite es"

definition quietEvent :: "event \<Rightarrow> bool" where
  "quietEvent e \<longleftrightarrow> downloadedPath e = [] \<and> firstWrite [e] = None"

lemma downloadedPaths_append: "downloadedPaths (xs @ ys) = downloadedPaths xs @ downloadedPaths ys"
  by (simp add: downloadedPaths_def)

lemma downloadedPaths_simps:
  "downloadedPaths [] = []"
  "downloadedPaths (e # es) = downloadedPath e @ downloadedPaths es"
  by (simp_all add: downloadedPaths_def)

lemma firstWrite_Cons: "firstWrite (e # es) = (case firstWrite [e] of Some x \<Rightarrow> Some x | None \<Rightarrow> firstWrite es)"
  by (cases "(e # es)" rule: firstWrite.cases) auto

lemma firstWrite_append:
  "firstWrite (xs @ ys) = (case firstWrite xs of Some x \<Rightarrow> Some x | None \<Rightarrow> firstWrite ys)"
proof (induction xs)
  case Nil
  show ?case by simp
next
  case (Cons e xs)
  show ?case
    using Cons.IH firstWrite_Cons [of e "xs @ ys"] firstWrite_Cons [of e xs]
    by (simp split: option.splits)
qed

lemma quiet_list:
  "\<forall>e\<in>set evs. quietEvent e \<Longrightarrow> downloadedPaths evs = [] \<and> firstWrite evs = None"
proof (induction evs)
  case Nil
  show ?case by (simp add: downloadedPaths_def)
next
  case (Cons e evs)
  then show ?case
    using firstWrite_Cons [of e evs]
    by (simp add: downloadedPaths_simps quietEvent_def)
qed

lemma quiet_call: "\<forall>p c. operation \<noteq> WriteTextFile p c \<Longrightarrow> quietEvent (Call operation out)"
  by (cases operation) (auto simp: quietEvent_def)

lemma quiet_consoleError: "quietEvent (ConsoleError l)"
  by (simp add: quietEvent_def)

lemma quiet_consoleLog: "\<forall>p. l \<noteq> Downloaded p \<Longrightarrow> quietEvent (ConsoleLog l)"
  by (cases l) (auto simp: quietEvent_def)

lemma emits_quiet_post:
  "emits quietEvent m \<Longrightarrow> post m (\<lambda>r evs. downloadedPaths evs = [] \<and> firstWrite evs = None)"
  unfolding emits_post by (erule post_conseq) (rule quiet_list)

text \<open>One turn of the download loop, lines 302-316.\<close>

lemma post_download_one:
  "post (tryCatch
          (andThen (downloadAttachment w f d n) (\<lambda>path.
           andThen (consoleLog (Downloaded path)) (\<lambda>_. ret (acc @ [path]))))
          (\<lambda>err. andThen (consoleError (DownloadFailed n err)) (\<lambda>_. ret acc)))
     (\<lambda>r evs. firstWrite evs = None \<and> r = Inr (acc @ downloadedPaths evs))"
proof -
  have d: "post (downloadAttachment w f d n) (\<lambda>r evs. downloadedPaths evs = [] \<and> firstWrite evs = None)"
    by (rule emits_quiet_post, rule emits_downloadAttachment) (simp add: quiet_call)
  have ok: "post (andThen (downloadAttachment w f d n) (\<lambda>path.
           andThen (consoleLog (Downloaded path)) (\<lambda>_. ret (acc @ [path]))))
      (\<lambda>r evs. firstWrite evs = None \<and>
         (case r of Inl e \<Rightarrow> downloadedPaths evs = [] | Inr x \<Rightarrow> x = acc @ downloadedPaths evs))"
    apply (rule post_andThen [OF d, where ?Q2.0 =
        "\<lambda>path r evs. r = Inr (acc @ [path]) \<and> evs = [ConsoleLog (Downloaded path)]"])
      apply (simp add: postI andThen_def consoleLog_def ret_def)
     apply simp
    apply (simp add: firstWrite_append downloadedPaths_append downloadedPaths_simps)
    done
  show ?thesis
    apply (rule post_tryCatch [OF ok, where ?Q2.0 =
        "\<lambda>e r evs. r = Inr acc \<and> evs = [ConsoleError (DownloadFailed n e)]"])
      apply (simp add: postI andThen_def consoleError_def ret_def)
     apply simp
    apply (simp add: firstWrite_append downloadedPaths_append downloadedPaths_simps)
    done
qed

lemma post_downloadAll:
  "post (downloadAll w d atts acc)
     (\<lambda>r evs. firstWrite evs = None \<and> r = Inr (acc @ downloadedPaths evs))"
proof (induction atts arbitrary: acc)
  case Nil
  show ?case by (simp add: post_ret downloadedPaths_simps)
next
  case (Cons a atts)
  show ?case
    unfolding downloadAll.simps
    apply (rule post_andThen [OF post_download_one, where ?Q2.0 =
        "\<lambda>acc' r evs. firstWrite evs = None \<and> r = Inr (acc' @ downloadedPaths evs)"])
      apply (rule Cons.IH)
     apply simp
    apply (simp add: firstWrite_append downloadedPaths_append)
    done
qed

lemma post_conj: "post m Q1 \<Longrightarrow> post m Q2 \<Longrightarrow> post m (\<lambda>r evs. Q1 r evs \<and> Q2 r evs)"
  unfolding post_def by (metis same_append_eq)

lemma post_trivial: "emits P m \<Longrightarrow> post m (\<lambda>_ _. True)"
  unfolding emits_def post_def by blast

text \<open>Lines 319-332: what happens after the download loop.\<close>

definition afterDownloads ::
  "world \<Rightarrow> jsstring \<Rightarrow> jsstring \<Rightarrow> jsstring \<Rightarrow> jsstring list \<Rightarrow> (jsstring list option) io" where
  "afterDownloads w messageDir attachDir text attachmentPaths =
     (if length attachmentPaths = 0 then
        andThen (tryCatch (call w (Remove attachDir True)) (\<lambda>_. ret ())) (\<lambda>_.
          if text = [] then andThen (call w (Remove messageDir True)) (\<lambda>_. ret None)
          else ret (Some attachmentPaths))
      else ret (Some attachmentPaths))"

lemma stageAttachments_unfold:
  "stageAttachments w messageDir text attachments =
     (if length attachments > 0 then
        andThen (call w (Mkdir (join w [messageDir, js ''attachments'']) MODE_755)) (\<lambda>_.
        andThen (downloadAll w (join w [messageDir, js ''attachments'']) attachments [])
          (afterDownloads w messageDir (join w [messageDir, js ''attachments'']) text))
      else ret (Some []))"
  unfolding stageAttachments_def Let_def afterDownloads_def [abs_def] by (rule refl)

lemma emits_afterDownloads: "emits quietEvent (afterDownloads w d a t paths)"
  unfolding afterDownloads_def
  by (intro emits_if emits_andThen emits_tryCatch emits_call emits_ret) (simp_all add: quiet_call)

lemma post_afterDownloads_result:
  "post (afterDownloads w d a t paths) (\<lambda>r evs. \<forall>ps. r = Inr (Some ps) \<longrightarrow> ps = paths)"
proof (cases "length paths = 0")
  case False
  then show ?thesis by (simp add: afterDownloads_def post_ret)
next
  case True
  have x: "post (tryCatch (call w (Remove a True)) (\<lambda>_. ret ())) (\<lambda>_ _. True)"
    by (rule post_trivial [where P = "\<lambda>_. True"])
       (intro emits_tryCatch emits_call emits_ret, simp)
  have y: "post (if t = [] then andThen (call w (Remove d True)) (\<lambda>_. ret None) else ret (Some paths))
      (\<lambda>r evs. \<forall>ps. r = Inr (Some ps) \<longrightarrow> ps = paths)"
  proof (cases "t = []")
    case True
    have "post (andThen (call w (Remove d True)) (\<lambda>_. ret None))
      (\<lambda>r evs. \<forall>ps. r = Inr (Some ps) \<longrightarrow> ps = paths)"
      by (rule post_andThen [where ?Q1.0 = "\<lambda>r _. r = Inr () \<or> (\<exists>e. r = Inl e)"
            and ?Q2.0 = "\<lambda>_ r _. r = Inr None"])
         (auto intro: post_call post_ret)
    with True show ?thesis by simp
  next
    case False
    then show ?thesis by (simp add: post_ret)
  qed
  have u: "afterDownloads w d a t paths =
      andThen (tryCatch (call w (Remove a True)) (\<lambda>_. ret ()))
        (\<lambda>_. if t = [] then andThen (call w (Remove d True)) (\<lambda>_. ret None) else ret (Some paths))"
    using True by (simp add: afterDownloads_def)
  show ?thesis
    unfolding u
    by (rule post_andThen [OF x, where ?Q2.0 = "\<lambda>_ r evs. \<forall>ps. r = Inr (Some ps) \<longrightarrow> ps = paths"])
       (simp_all add: y)
qed

lemma post_afterDownloads:
  "post (afterDownloads w d a t paths)
     (\<lambda>r evs. (downloadedPaths evs = [] \<and> firstWrite evs = None)
              \<and> (\<forall>ps. r = Inr (Some ps) \<longrightarrow> ps = paths))"
  by (rule post_conj [OF emits_quiet_post [OF emits_afterDownloads] post_afterDownloads_result])

definition staged :: "(error + jsstring list option) \<Rightarrow> event list \<Rightarrow> bool" where
  "staged r evs \<longleftrightarrow> firstWrite evs = None \<and> (\<forall>ps. r = Inr (Some ps) \<longrightarrow> ps = downloadedPaths evs)"

lemma post_stageAttachments: "post (stageAttachments w d t atts) staged"
proof (cases "length atts > 0")
  case False
  then show ?thesis
    by (simp add: stageAttachments_unfold post_ret staged_def downloadedPaths_simps)
next
  case True
  let ?a = "join w [d, js ''attachments'']"
  have inner: "post (andThen (downloadAll w ?a atts []) (afterDownloads w d ?a t)) staged"
    apply (rule post_andThen [OF post_downloadAll, where ?Q2.0 =
        "\<lambda>paths r evs. (downloadedPaths evs = [] \<and> firstWrite evs = None)
              \<and> (\<forall>ps. r = Inr (Some ps) \<longrightarrow> ps = paths)"])
      apply (rule post_afterDownloads)
     apply simp
    apply (simp add: staged_def firstWrite_append downloadedPaths_append)
    done
  have mk: "post (call w (Mkdir ?a MODE_755)) (\<lambda>r evs. downloadedPaths evs = [] \<and> firstWrite evs = None)"
    by (rule emits_quiet_post, rule emits_call) (simp add: quiet_call)
  have "post (andThen (call w (Mkdir ?a MODE_755))
          (\<lambda>_. andThen (downloadAll w ?a atts []) (afterDownloads w d ?a t))) staged"
    apply (rule post_andThen [OF mk, where ?Q2.0 = "\<lambda>_. staged"])
      apply (rule inner)
     apply (simp add: staged_def)
    apply (simp add: staged_def firstWrite_append downloadedPaths_append)
    done
  with True show ?thesis by (simp add: stageAttachments_unfold)
qed

lemma no_download_list: "\<forall>e\<in>set evs. downloadedPath e = [] \<Longrightarrow> downloadedPaths evs = []"
  by (induction evs) (simp_all add: downloadedPaths_simps)

lemma no_download_call: "downloadedPath (Call operation out) = []"
  by simp

lemma emits_linkAndCommit_no_download:
  "emits (\<lambda>e. downloadedPath e = []) (linkAndCommit w d c ms s jobFile)"
  unfolding linkAndCommit_def Let_def
  by (intro emits_andThen emits_tryCatch emits_call emits_consoleError emits_consoleLog) simp_all

definition prompted :: "jsstring \<Rightarrow> jsstring \<Rightarrow> (error + unit) \<Rightarrow> event list \<Rightarrow> bool" where
  "prompted promptPath prompt r evs \<longleftrightarrow>
     downloadedPaths evs = []
     \<and> (firstWrite evs = None \<or> firstWrite evs = Some (promptPath, prompt))"

lemma post_enqueue_prompted:
  "post (enqueue w d channel sourceId c ms s prompt) (prompted (join w [d, js ''prompt.txt'']) prompt)"
proof -
  let ?pp = "join w [d, js ''prompt.txt'']"
  let ?G = "\<lambda>_::unit. andThen
       (callV w
          (RunNq [execPath w, js ''task'', js ''--quiet'', js ''cli'', js ''dispatch'', js ''--id'',
                  channel @ js '':'' @ sourceId])
          (nq_output w))
       (\<lambda>result.
          let jobFile = trim (out_stdout result)
          in if jobFile = [] \<or> \<not> out_success result
             then consoleError (NqFailed (out_stderr result))
             else linkAndCommit w d c ms s jobFile)"
  have g: "\<And>x. post (?G x) (\<lambda>r evs. downloadedPaths evs = [])"
    unfolding Let_def
    by (rule post_conseq [where Q = "\<lambda>r evs. \<forall>e\<in>set evs. downloadedPath e = []"],
        fold emits_post,
        intro emits_andThen emits_if emits_callV emits_consoleError emits_linkAndCommit_no_download)
       (simp_all add: no_download_list)
  have wr: "post (call w (WriteTextFile ?pp prompt))
      (\<lambda>r evs. \<exists>out. evs = [Call (WriteTextFile ?pp prompt) out])"
    by (rule post_call) simp_all
  have w2: "post (andThen (call w (WriteTextFile ?pp prompt)) ?G) (prompted ?pp prompt)"
    by (rule post_andThen [OF wr g])
       (auto simp: prompted_def downloadedPaths_simps downloadedPaths_append)
  have ack: "post (call w ReplyWithChatAction) (\<lambda>r evs. downloadedPaths evs = [] \<and> firstWrite evs = None)"
    by (rule emits_quiet_post, rule emits_call) (simp add: quiet_call)
  show ?thesis
    unfolding enqueue_def
    by (rule post_andThen [OF ack, where ?Q2.0 = "\<lambda>_. prompted ?pp prompt"])
       (auto simp: w2 prompted_def firstWrite_append downloadedPaths_append)
qed

text \<open>
  \<open>promptWritten\<close>: the first text file written, if any, is \<open>prompt.txt\<close>, and it
  holds the prompt built from the paths that were logged as downloaded.
\<close>

definition promptWritten :: "jsstring \<Rightarrow> jsstring \<Rightarrow> jsstring \<Rightarrow> event list \<Rightarrow> bool" where
  "promptWritten promptPath text quoted evs \<longleftrightarrow>
     (case firstWrite evs of
        None \<Rightarrow> True
      | Some (p, content) \<Rightarrow>
          p = promptPath \<and> content = buildPrompt text quoted (downloadedPaths evs))"

lemma promptWritten_quiet: "\<forall>e\<in>set evs. quietEvent e \<Longrightarrow> promptWritten pp t q evs"
  using quiet_list [of evs] by (simp add: promptWritten_def)

lemma promptWritten_prefix:
  "\<forall>e\<in>set pre. quietEvent e \<Longrightarrow> promptWritten pp t q evs \<Longrightarrow> promptWritten pp t q (pre @ evs)"
  using quiet_list [of pre]
  by (auto simp: promptWritten_def firstWrite_append downloadedPaths_append split: option.splits)

lemma promptWritten_suffix:
  "\<forall>e\<in>set suf. quietEvent e \<Longrightarrow> promptWritten pp t q evs \<Longrightarrow> promptWritten pp t q (evs @ suf)"
  using quiet_list [of suf]
  by (auto simp: promptWritten_def firstWrite_append downloadedPaths_append split: option.splits)

lemma post_ingressBody_prompt:
  "post (ingressBody w c ms s t q atts)
     (\<lambda>r. promptWritten
        (join w [getMessageDir w (js ''telegram'') (numberToString c @ js ''_'' @ numberToString ms),
                 js ''prompt.txt'']) t q)"
proof -
  let ?d = "getMessageDir w (js ''telegram'') (numberToString c @ js ''_'' @ numberToString ms)"
  let ?pp = "join w [?d, js ''prompt.txt'']"
  let ?rest = "\<lambda>st. case st of
             None \<Rightarrow> ret ()
           | Some attachmentPaths \<Rightarrow>
               enqueue w ?d (js ''telegram'') (numberToString c @ js ''_'' @ numberToString ms) c ms s
                 (buildPrompt t q attachmentPaths)"
  have rest: "\<And>st. post (?rest st)
      (case st of None \<Rightarrow> (\<lambda>r evs. evs = [])
       | Some paths \<Rightarrow> prompted ?pp (buildPrompt t q paths))"
    subgoal for st
      by (cases st) (simp_all add: post_ret post_enqueue_prompted)
    done
  have inner: "post (andThen (stageAttachments w ?d t atts) ?rest) (\<lambda>r. promptWritten ?pp t q)"
    apply (rule post_andThen [OF post_stageAttachments, where ?Q2.0 =
        "\<lambda>st. case st of None \<Rightarrow> (\<lambda>r evs. evs = [])
       | Some paths \<Rightarrow> prompted ?pp (buildPrompt t q paths)"])
      apply (rule rest)
     apply (simp add: staged_def promptWritten_def)
    subgoal for st evs1 res evs2
      by (cases st)
         (auto simp: staged_def prompted_def promptWritten_def firstWrite_append downloadedPaths_append)
    done
  have mk: "post (call w (Mkdir ?d MODE_755)) (\<lambda>r evs. \<forall>e\<in>set evs. quietEvent e)"
    by (fold emits_post, rule emits_call) (simp add: quiet_call)
  show ?thesis
    unfolding ingressBody_def Let_def
    by (rule post_andThen [OF mk, where ?Q2.0 = "\<lambda>_ r. promptWritten ?pp t q"])
       (auto simp: inner intro: promptWritten_quiet promptWritten_prefix)
qed

lemma post_createIngressHandler_prompt:
  assumes "ctxChatId ctx = Some c" and "ctxMessageId ctx = Some ms"
  shows "post (createIngressHandler w allowedIds ctx)
     (\<lambda>r. promptWritten
        (join w [getMessageDir w (js ''telegram'') (numberToString c @ js ''_'' @ numberToString ms),
                 js ''prompt.txt'']) (ctxText ctx) (ctxQuote ctx))"
proof -
  let ?pp = "join w [getMessageDir w (js ''telegram'') (numberToString c @ js ''_'' @ numberToString ms),
                 js ''prompt.txt'']"
  let ?Q = "\<lambda>r::error + unit. promptWritten ?pp (ctxText ctx) (ctxQuote ctx)"
  let ?body = "ingressBody w c ms (ctxUserId ctx) (ctxText ctx) (ctxQuote ctx)
                 (extractAttachments (ctx_message ctx))"
  have quiet: "\<And>m::unit io. emits quietEvent m \<Longrightarrow> post m (\<lambda>r evs. \<forall>e\<in>set evs. quietEvent e)"
    by (simp add: emits_post)
  have caught: "post (tryCatch ?body (\<lambda>err. consoleError (IngressError err))) ?Q"
    by (rule post_tryCatch [OF post_ingressBody_prompt,
          where ?Q2.0 = "\<lambda>e r evs. evs = [ConsoleError (IngressError e)]"])
       (auto intro: post_consoleError promptWritten_suffix simp: quiet_consoleError)
  have ack: "post (andThen (call w ReplyWithChatAction)
                (\<lambda>_. tryCatch ?body (\<lambda>err. consoleError (IngressError err)))) ?Q"
    by (rule post_andThen [OF quiet [OF emits_call], where ?Q2.0 = "\<lambda>_. ?Q"])
       (auto simp: caught quiet_call intro: promptWritten_quiet promptWritten_prefix)
  have skip: "post (consoleLog (IngressSkipped (isMissingId ctx) (isAllowed allowedIds ctx))) ?Q"
    by (rule post_consoleLog) (simp add: promptWritten_def)
  have branch: "post (if rejected allowedIds ctx
           then consoleLog (IngressSkipped (isMissingId ctx) (isAllowed allowedIds ctx))
           else andThen (call w ReplyWithChatAction)
                  (\<lambda>_. tryCatch ?body (\<lambda>err. consoleError (IngressError err)))) ?Q"
    by (rule post_if) (rule skip, rule ack)
  show ?thesis
    unfolding createIngressHandler_def Let_def assms option.case
    by (rule post_andThen [OF quiet [OF emits_consoleLog], where ?Q2.0 = "\<lambda>_. ?Q"])
       (auto simp: branch quiet_consoleLog intro: promptWritten_quiet promptWritten_prefix)
qed

lemma buildPrompt_quote_and_attachments:
  "quoted \<noteq> [] \<Longrightarrow> paths \<noteq> [] \<Longrightarrow>
   buildPrompt t quoted paths =
     trim (js ''Attachments:'' @ [NL] @ attachmentList paths @ [NL, NL]
           @ js ''Quote: '' @ quoted @ [NL, NL] @ t)"
  by (simp add: buildPrompt_def)

lemma manifestLines_nth:
  "i < length paths \<Longrightarrow> manifestLines paths ! i = numberToString (int i + 1) @ js ''. @'' @ paths ! i"
  by (simp add: manifestLines_def)

subsection \<open>A reply that carries a photo\<close>

definition testPhotoPath :: jsstring where
  "testPhotoPath = js ''/data/messages/telegram/456_789/attachments/photo.jpg''"

definition testPhotoPrompt :: jsstring where
  "testPhotoPrompt =
     js ''Attachments:'' @ [NL] @ js ''1. @/data/messages/telegram/456_789/attachments/photo.jpg''
     @ [NL, NL] @ js ''Quote: earlier'' @ [NL, NL] @ js ''hi''"

lemma photoReply_fields:
  "ctxMessageId (testContext s photoReply) = Some 789"
  "ctxText (testContext s photoReply) = js ''hi''"
  "ctxQuote (testContext s photoReply) = js ''earlier''"
  "extractAttachments (ctx_message (testContext s photoReply))
     = [\<lparr> fileId = js ''large'', fileName = js ''photo.jpg'' \<rparr>]"
  "getMsgType (ctx_message (testContext s photoReply)) = js ''photo''"
  by (simp_all add: testContext_def photoReply_def ctxMessageId_def ctxText_def ctxQuote_def
      extractAttachments_def getMsgType_def)

lemma buildPrompt_testPhoto: "buildPrompt (js ''hi'') (js ''earlier'') [testPhotoPath] = testPhotoPrompt"
  by (simp add: buildPrompt_def attachmentList_def manifestLines_def testPhotoPath_def testPhotoPrompt_def
      numberToString_def js_def NL_def trim_def isWhiteSpace_def)

lemma promptQuoteFirst_testPhoto:
  "promptQuoteFirst_spec (js ''hi'') (js ''earlier'') [testPhotoPath] \<noteq> testPhotoPrompt"
  by (simp add: promptQuoteFirst_spec_def attachmentList_def manifestLines_def testPhotoPath_def
      testPhotoPrompt_def numberToString_def js_def NL_def trim_def isWhiteSpace_def)

lemma testWorld_download_fields:
  "getFile_file_path (testWorld t) = (\<lambda>_ _. Some (js ''mock/path''))"
  "fetch_response (testWorld t) = (\<lambda>_ _. \<lparr> resp_ok = True, resp_status = 200,
                                 resp_statusText = js ''OK'', resp_body = [] \<rparr>)"
  "bot_token (testWorld t) = js ''mock-token''"
  by (simp_all add: testWorld_def)

lemma photo_paths:
  "js ''/'' @ js ''attachments'' = js ''/attachments''"
  "testMessageDir @ js ''/attachments'' @ js ''/'' @ js ''photo.jpg'' = testPhotoPath"
  by (simp_all add: testMessageDir_def testPhotoPath_def js_def)

lemma downloadAttachment_testWorld:
  "downloadAttachment (testWorld []) (js ''large'') (testMessageDir @ js ''/attachments'') (js ''photo.jpg'') tr
   = (Inr testPhotoPath,
      tr @ [Call (GetFile (js ''large'')) None,
            Call (Fetch (js ''https://api.telegram.org/file/botmock-token/mock/path'')) None,
            Call (ArrayBuffer (js ''https://api.telegram.org/file/botmock-token/mock/path'')) None,
            Call (WriteFile testPhotoPath []) None])"
proof -
  have url: "js ''https://api.telegram.org/file/bot'' @ js ''mock-token'' @ js ''/'' @ js ''mock/path''
      = js ''https://api.telegram.org/file/botmock-token/mock/path''"
    by (simp add: js_def)
  have ne: "js ''mock/path'' \<noteq> []" by (simp add: js_def)
  show ?thesis
    unfolding downloadAttachment_def Let_def testWorld_fields testWorld_download_fields
    by (simp add: io_defs testWorld_fields url ne photo_paths)
qed

lemma stageAttachments_testWorld:
  "stageAttachments (testWorld []) testMessageDir (js ''hi'')
     [\<lparr> fileId = js ''large'', fileName = js ''photo.jpg'' \<rparr>] tr
   = (Inr (Some [testPhotoPath]),
      tr @ [Call (Mkdir (testMessageDir @ js ''/attachments'') MODE_755) None,
            Call (GetFile (js ''large'')) None,
            Call (Fetch (js ''https://api.telegram.org/file/botmock-token/mock/path'')) None,
            Call (ArrayBuffer (js ''https://api.telegram.org/file/botmock-token/mock/path'')) None,
            Call (WriteFile testPhotoPath []) None,
            ConsoleLog (Downloaded testPhotoPath)])"
  unfolding stageAttachments_def Let_def testWorld_fields
  apply (simp add: io_defs testWorld_fields downloadAttachment_testWorld photo_paths)
  done

definition testPhotoLog :: event where
  "testPhotoLog = ConsoleLog (IngressMessage (js ''user'') (Some 123)
     [js ''type=photo'', js ''text=hi'', js ''quote=earlier'', js ''attachments=1''])"

lemma photoReply_details:
  "ctxDetails (testContext s photoReply)
     = [js ''type=photo'', js ''text=hi'', js ''quote=earlier'', js ''attachments=1'']"
  unfolding ctxDetails_def photoReply_fields by (simp add: js_def numberToString_def)

lemma accepted_photo: "\<not> rejected {js ''123''} (testContext 123 photoReply)"
  by (simp add: rejected_def isMissingId_def isAllowed_def testContext_fields photoReply_fields
      numberToString_examples js_def)

lemma testMessageDir_eq:
  "getMessageDir (testWorld []) (js ''telegram'') (numberToString 456 @ js ''_'' @ numberToString 789)
     = testMessageDir"
  by (simp add: getMessageDir_def MESSAGES_DIR_def testWorld_fields testMessageDir_def
      numberToString_examples js_def)

lemma createIngressHandler_photo_run:
  "createIngressHandler (testWorld []) {js ''123''} (testContext 123 photoReply) [] =
     (Inr (),
      [testPhotoLog,
       Call ReplyWithChatAction None,
       Call (Mkdir testMessageDir MODE_755) None,
       Call (Mkdir (testMessageDir @ js ''/attachments'') MODE_755) None,
       Call (GetFile (js ''large'')) None,
       Call (Fetch (js ''https://api.telegram.org/file/botmock-token/mock/path'')) None,
       Call (ArrayBuffer (js ''https://api.telegram.org/file/botmock-token/mock/path'')) None,
       Call (WriteFile testPhotoPath []) None,
       ConsoleLog (Downloaded testPhotoPath),
       Call ReplyWithChatAction None,
       Call (WriteTextFile (testMessageDir @ js ''/prompt.txt'') testPhotoPrompt) None,
       Call (RunNq [js ''deno'', js ''task'', js ''--quiet'', js ''cli'', js ''dispatch'', js ''--id'',
                    js ''telegram:456_789'']) None,
       Call (Symlink testMessageDir (js ''/data/,job.d'')) None,
       Call (WriteTextFile (testMessageDir @ js ''/meta.json'') (js ''{}'')) None,
       ConsoleLog (Queued (js '',job'') (Some 123))])"
proof -
  have body: "ingressBody (testWorld []) 456 789 (Some 123) (js ''hi'') (js ''earlier'')
        [\<lparr> fileId = js ''large'', fileName = js ''photo.jpg'' \<rparr>]
        [testPhotoLog, Call ReplyWithChatAction None]
      = (Inr (),
      [testPhotoLog,
       Call ReplyWithChatAction None,
       Call (Mkdir testMessageDir MODE_755) None,
       Call (Mkdir (testMessageDir @ js ''/attachments'') MODE_755) None,
       Call (GetFile (js ''large'')) None,
       Call (Fetch (js ''https://api.telegram.org/file/botmock-token/mock/path'')) None,
       Call (ArrayBuffer (js ''https://api.telegram.org/file/botmock-token/mock/path'')) None,
       Call (WriteFile testPhotoPath []) None,
       ConsoleLog (Downloaded testPhotoPath),
       Call ReplyWithChatAction None,
       Call (WriteTextFile (testMessageDir @ js ''/prompt.txt'') testPhotoPrompt) None,
       Call (RunNq [js ''deno'', js ''task'', js ''--quiet'', js ''cli'', js ''dispatch'', js ''--id'',
                    js ''telegram:456_789'']) None,
       Call (Symlink testMessageDir (js ''/data/,job.d'')) None,
       Call (WriteTextFile (testMessageDir @ js ''/meta.json'') (js ''{}'')) None,
       ConsoleLog (Queued (js '',job'') (Some 123))])"
    unfolding ingressBody_def Let_def testMessageDir_eq enqueue_def linkAndCommit_def
      testWorld_fields testWorld_ingress_fields
    by (simp add: io_defs testWorld_fields stageAttachments_testWorld buildPrompt_testPhoto test_paths)
  show ?thesis
    unfolding createIngressHandler_def Let_def testContext_fields photoReply_fields photoReply_details
    by (simp add: accepted_photo io_defs testWorld_fields body testPhotoLog_def [symmetric])
qed

definition photoRun :: "event list" where
  "photoRun = emitted (createIngressHandler (testWorld []) {js ''123''} (testContext 123 photoReply)) []"

lemma photoRun_events:
  "photoRun =
      [testPhotoLog,
       Call ReplyWithChatAction None,
       Call (Mkdir testMessageDir MODE_755) None,
       Call (Mkdir (testMessageDir @ js ''/attachments'') MODE_755) None,
       Call (GetFile (js ''large'')) None,
       Call (Fetch (js ''https://api.telegram.org/file/botmock-token/mock/path'')) None,
       Call (ArrayBuffer (js ''https://api.telegram.org/file/botmock-token/mock/path'')) None,
       Call (WriteFile testPhotoPath []) None,
       ConsoleLog (Downloaded testPhotoPath),
       Call ReplyWithChatAction None,
       Call (WriteTextFile (testMessageDir @ js ''/prompt.txt'') testPhotoPrompt) None,
       Call (RunNq [js ''deno'', js ''task'', js ''--quiet'', js ''cli'', js ''dispatch'', js ''--id'',
                    js ''telegram:456_789'']) None,
       Call (Symlink testMessageDir (js ''/data/,job.d'')) None,
       Call (WriteTextFile (testMessageDir @ js ''/meta.json'') (js ''{}'')) None,
       ConsoleLog (Queued (js '',job'') (Some 123))]"
  by (simp add: photoRun_def emitted_def createIngressHandler_photo_run)

lemma photoRun_downloaded: "downloadedPaths photoRun = [testPhotoPath]"
  unfolding photoRun_events by (simp add: downloadedPaths_def testPhotoLog_def)

lemma photoRun_firstWrite:
  "firstWrite photoRun = Some (testMessageDir @ js ''/prompt.txt'', testPhotoPrompt)"
  unfolding photoRun_events by (simp add: testPhotoLog_def)

lemma testPromptPath:
  "join (testWorld []) [getMessageDir (testWorld []) (js ''telegram'')
                          (numberToString 456 @ js ''_'' @ numberToString 789), js ''prompt.txt'']
   = testMessageDir @ js ''/prompt.txt''"
  unfolding testMessageDir_eq by (simp add: testWorld_fields test_paths)


section \<open>Output processing: the claims\<close>

text \<open>
  Claim C4. The output \<open>processJob\<close> works with is the trimmed text itself when that
  has at most two lines; when it has more than two lines, the first and the last
  line are removed and what is left between them is trimmed. That output is what is
  escaped and cut into messages: on a run that returns normally the texts sent
  are the chunks of the escaped output.
\<close>

theorem processJob_strips_header_and_footer:
  fixes w scanDir jobName tr fileText
  defines "raw \<equiv> trim fileText"
    and "metaPath \<equiv> getJobMeta w jobName"
    and "logPath \<equiv> join w [scanDir, jobName]"
  shows "(length (splitLines raw) \<le> 2 \<longrightarrow> jobOutput fileText = raw)
       \<and> (2 < length (splitLines raw) \<longrightarrow>
            jobOutput fileText = trim (joinLines (butlast (tl (splitLines raw)))))
       \<and> (fails w tr (ReadTextFile metaPath) = None
          \<and> fails w (tr @ [Call (ReadTextFile metaPath) None]) (ReadTextFile logPath) = None
          \<and> readTextFile_text w (tr @ [Call (ReadTextFile metaPath) None]) logPath = fileText
          \<and> jobOutput fileText \<noteq> []
          \<and> fst (processJob w scanDir jobName tr) = Inr ()
          \<longrightarrow> messagesSent (emitted (processJob w scanDir jobName) tr)
                = splitChunks (convert w (jobOutput fileText)))"
proof (intro conjI impI)
  assume "length (splitLines raw) \<le> 2"
  then show "jobOutput fileText = raw"
    by (simp add: jobOutput_spec stripHeaderFooter_spec_def raw_def trim_idem)
next
  assume "2 < length (splitLines raw)"
  then show "jobOutput fileText = trim (joinLines (butlast (tl (splitLines raw))))"
    by (simp add: jobOutput_spec stripHeaderFooter_spec_def raw_def)
next
  assume a: "fails w tr (ReadTextFile metaPath) = None
          \<and> fails w (tr @ [Call (ReadTextFile metaPath) None]) (ReadTextFile logPath) = None
          \<and> readTextFile_text w (tr @ [Call (ReadTextFile metaPath) None]) logPath = fileText
          \<and> jobOutput fileText \<noteq> []
          \<and> fst (processJob w scanDir jobName tr) = Inr ()"
  let ?tr2 = "(tr @ [Call (ReadTextFile metaPath) None]) @ [Call (ReadTextFile logPath) None]"
  from processJob_cases [of w scanDir jobName tr] a
  obtain meta where
    R: "processJob w scanDir jobName tr
        = deliverAndRetire w logPath (getJobDir w jobName) jobName meta (jobOutput fileText) ?tr2"
    unfolding metaPath_def logPath_def by auto
  from deliverAndRetire_cases [of w logPath "getJobDir w jobName" jobName meta "jobOutput fileText" ?tr2]
    a R
  have run: "processJob w scanDir jobName tr = (Inr (),
      tr @ [Call (ReadTextFile metaPath) None, Call (ReadTextFile logPath) None]
         @ (Call (SendChatAction (chatId meta)) None
            # map (sent (chatId meta) (messageId meta)) (splitChunks (convert w (jobOutput fileText))))
         @ Call (Rename logPath (join w [getJobDir w jobName, jobName])) None
         # cleanupEvents w (join w [DATA_DIR w, jobName @ js ''.d''])
             (?tr2 @ (Call (SendChatAction (chatId meta)) None
                # map (sent (chatId meta) (messageId meta)) (splitChunks (convert w (jobOutput fileText))))
               @ [Call (Rename logPath (join w [getJobDir w jobName, jobName])) None])
         @ [ConsoleLog (SentResponse jobName (chatId meta))])"
    by auto
  show "messagesSent (emitted (processJob w scanDir jobName) tr)
                = splitChunks (convert w (jobOutput fileText))"
    unfolding emitted_append [where m = "processJob w scanDir jobName", OF run]
    by (simp add: messagesSent_append messagesSent_Cons messagesSent_Nil messagesSent_sent messagesSent_cleanup)
qed

theorem processJob_strips_header_and_footer_witness:
  "jobOutput (js ''hello'') = js ''hello''
   \<and> jobOutput shortJobText = helloWorld
   \<and> messagesSent (emitted (processJob (testWorld shortJobText) (js ''/queue/completed'') (js '',job'')) [])
       = [helloWorld]"
proof -
  have l1: "length (splitLines (trim (js ''hello''))) \<le> 2"
    unfolding trim_hello by (simp add: js_def NL_def)
  have l2: "2 < length (splitLines (trim shortJobText))"
    unfolding splitLines_shortJobText by simp
  have o1: "jobOutput (js ''hello'') = js ''hello''"
    using l1 processJob_strips_header_and_footer [where fileText = "js ''hello''"]
    unfolding trim_hello by blast
  have "jobOutput shortJobText = trim (joinLines (butlast (tl (splitLines (trim shortJobText)))))"
    using l2 processJob_strips_header_and_footer [where fileText = shortJobText] by blast
  then have o2: "jobOutput shortJobText = helloWorld"
    unfolding splitLines_shortJobText using trim_helloWorld by simp
  have ne: "jobOutput shortJobText \<noteq> []" unfolding o2 by (simp add: helloWorld_def)
  have run: "fst (processJob (testWorld shortJobText) (js ''/queue/completed'') (js '',job'') []) = Inr ()"
    unfolding processJob_def deliverAndRetire_def sendSplitMessage_def sendSplitLoop_sendAll Let_def
      testWorld_fields
    by (simp add: andThen_def tryCatch_def readTextFile_def callV_def call_def ret_def
        consoleLog_def testWorld_fields o2 splitChunks_helloWorld)
  have "messagesSent (emitted (processJob (testWorld shortJobText) (js ''/queue/completed'') (js '',job'')) [])
       = splitChunks (convert (testWorld shortJobText) (jobOutput shortJobText))"
    using ne run processJob_strips_header_and_footer [where fileText = shortJobText
        and w = "testWorld shortJobText" and tr = "[]" and jobName = "js '',job''"
        and scanDir = "js ''/queue/completed''"]
    by (simp add: testWorld_fields)
  then show ?thesis using o1 o2 splitChunks_helloWorld by (simp add: testWorld_fields)
qed

text \<open>
  Claim C5. When the raw job output has an empty interior (the text is trimmed, the
  header and the footer line are stripped, which leaves a text of at most two lines
  alone, and the rest is trimmed again), \<open>processJob\<close> reads \<open>meta.json\<close> and the job
  file, logs that the output is empty and returns normally: it sends no chat action
  and no message. The premises say that both files could be read and that
  \<open>meta.json\<close> is valid, which is what it takes for there to be a raw job output.
\<close>

theorem processJob_empty_output:
  fixes w scanDir jobName tr
  defines "metaPath \<equiv> getJobMeta w jobName"
    and "logPath \<equiv> join w [scanDir, jobName]"
  assumes metaRead: "fails w tr (ReadTextFile metaPath) = None"
    and metaParsed: "parseJobMeta w (readTextFile_text w tr metaPath) = Inr meta"
    and logRead: "fails w (tr @ [Call (ReadTextFile metaPath) None]) (ReadTextFile logPath) = None"
    and raw: "readTextFile_text w (tr @ [Call (ReadTextFile metaPath) None]) logPath = fileText"
    and empty: "trim (stripHeaderFooter_spec (trim fileText)) = []"
  shows "processJob w scanDir jobName tr =
           (Inr (), tr @ [Call (ReadTextFile metaPath) None, Call (ReadTextFile logPath) None,
                          ConsoleLog (EmptyOutput jobName)])
         \<and> filter isDeliveryCall (emitted (processJob w scanDir jobName) tr) = []"
proof -
  have out: "jobOutput fileText = []" using empty by (simp add: jobOutput_spec)
  have run: "processJob w scanDir jobName tr =
           (Inr (), tr @ [Call (ReadTextFile metaPath) None, Call (ReadTextFile logPath) None,
                          ConsoleLog (EmptyOutput jobName)])"
    using metaRead metaParsed logRead raw out
    unfolding processJob_def Let_def metaPath_def logPath_def
    by (simp add: andThen_def readTextFile_def callV_def consoleLog_def)
  then show ?thesis by (simp add: emitted_append [where m = "processJob w scanDir jobName", OF run])
qed

theorem processJob_empty_output_witness:
  "trim (stripHeaderFooter_spec (trim emptyJobText)) = []
   \<and> processJob (testWorld emptyJobText) (js ''/queue/completed'') (js '',job'') [] =
       (Inr (), [Call (ReadTextFile (js ''/data/,job.d/meta.json'')) None,
                 Call (ReadTextFile (js ''/queue/completed/,job'')) None,
                 ConsoleLog (EmptyOutput (js '',job''))])
   \<and> filter isDeliveryCall
        (emitted (processJob (testWorld emptyJobText) (js ''/queue/completed'') (js '',job'')) []) = []"
proof -
  have "processJob (testWorld emptyJobText) (js ''/queue/completed'') (js '',job'') [] =
       (Inr (), [] @ [Call (ReadTextFile (getJobMeta (testWorld emptyJobText) (js '',job''))) None,
                 Call (ReadTextFile (join (testWorld emptyJobText) [js ''/queue/completed'', js '',job''])) None,
                 ConsoleLog (EmptyOutput (js '',job''))])
   \<and> filter isDeliveryCall
        (emitted (processJob (testWorld emptyJobText) (js ''/queue/completed'') (js '',job'')) []) = []"
    by (rule processJob_empty_output [where meta = "\<lparr> chatId = 123, messageId = 456, userId = None \<rparr>"
          and fileText = emptyJobText])
       (simp_all add: testWorld_fields interior_emptyJobText)
  then show ?thesis
    unfolding testWorld_paths using interior_emptyJobText by simp
qed

text \<open>
  Claim C6, as amended. \<open>sendSplitMessage\<close> escapes the text and sends it in chunks,
  in order, each as a reply to the same message id, stopping at the first send that
  fails. No chunk is empty and none is longer than 4096 code units. A text of at
  most 4096 code units is sent as it is, in one message, and is not trimmed. A
  longer text is cut at the last line feed among the indices 0 to 4096 when there
  is one, and after 4096 code units otherwise; the piece before the cut and the
  rest are trimmed, so every chunk of a longer text is trimmed. In particular 4000
  times A, a line feed and 1000 times B give exactly two chunks, the 4000 As and
  the 1000 Bs.
\<close>

theorem sendSplitMessage_chunks:
  fixes w chat msg replyTo tr
  defines "escaped \<equiv> convert w msg"
  defines "chunks \<equiv> splitChunks escaped"
    and "k \<equiv> nat (nextSplitIndex escaped)"
  shows "MAX_LENGTH = 4096
     \<and> (\<forall>c\<in>set chunks. c \<noteq> [] \<and> length c \<le> MAX_LENGTH)
     \<and> (length escaped \<le> MAX_LENGTH \<longrightarrow> chunks = (if escaped = [] then [] else [escaped]))
     \<and> (MAX_LENGTH < length escaped \<longrightarrow>
          (\<forall>c\<in>set chunks. trim c = c)
          \<and> k \<le> MAX_LENGTH
          \<and> ((\<exists>i\<le>MAX_LENGTH. escaped ! i = NL) \<longrightarrow>
               escaped ! k = NL \<and> (\<forall>j. k < j \<and> j \<le> MAX_LENGTH \<longrightarrow> escaped ! j \<noteq> NL))
          \<and> ((\<forall>i\<le>MAX_LENGTH. escaped ! i \<noteq> NL) \<longrightarrow> k = MAX_LENGTH)
          \<and> chunks = (if trim (take k escaped) = [] then [] else [trim (take k escaped)])
                      @ splitChunks (trim (drop k escaped)))
     \<and> (sendSplitMessage w chat msg replyTo tr = (Inr (), tr @ map (sent chat replyTo) chunks)
        \<or> (\<exists>n e. n < length chunks \<and>
              sendSplitMessage w chat msg replyTo tr =
                (Inl e, tr @ map (sent chat replyTo) (take n chunks)
                        @ [Call (SendMessage chat (chunks ! n) replyTo) (Some e)])))
     \<and> (escaped = longOutput \<longrightarrow> chunks = [replicate 4000 exampleA, replicate 1000 exampleB])"
proof -
  have k0: "0 \<le> nextSplitIndex escaped" "nextSplitIndex escaped \<le> int MAX_LENGTH"
    using nextSplitIndex_bounds [of escaped] by simp_all
  have bounds: "\<forall>c\<in>set chunks. c \<noteq> [] \<and> length c \<le> MAX_LENGTH"
    unfolding chunks_def using splitChunks_bounds by blast
  have short: "length escaped \<le> MAX_LENGTH \<longrightarrow> chunks = (if escaped = [] then [] else [escaped])"
    unfolding chunks_def using splitChunks_short by blast
  have long: "MAX_LENGTH < length escaped \<longrightarrow>
          (\<forall>c\<in>set chunks. trim c = c)
          \<and> k \<le> MAX_LENGTH
          \<and> ((\<exists>i\<le>MAX_LENGTH. escaped ! i = NL) \<longrightarrow>
               escaped ! k = NL \<and> (\<forall>j. k < j \<and> j \<le> MAX_LENGTH \<longrightarrow> escaped ! j \<noteq> NL))
          \<and> ((\<forall>i\<le>MAX_LENGTH. escaped ! i \<noteq> NL) \<longrightarrow> k = MAX_LENGTH)
          \<and> chunks = (if trim (take k escaped) = [] then [] else [trim (take k escaped)])
                      @ splitChunks (trim (drop k escaped))"
  proof
    assume l: "MAX_LENGTH < length escaped"
    have a: "\<forall>c\<in>set chunks. trim c = c"
      unfolding chunks_def using splitChunks_long_trimmed [OF l] by blast
    have b: "k \<le> MAX_LENGTH" unfolding k_def using k0 by simp
    have c: "(\<exists>i\<le>MAX_LENGTH. escaped ! i = NL) \<longrightarrow>
               escaped ! k = NL \<and> (\<forall>j. k < j \<and> j \<le> MAX_LENGTH \<longrightarrow> escaped ! j \<noteq> NL)"
      unfolding k_def using nextSplitIndex_newline [OF l] by blast
    have d: "(\<forall>i\<le>MAX_LENGTH. escaped ! i \<noteq> NL) \<longrightarrow> k = MAX_LENGTH"
      unfolding k_def using nextSplitIndex_hard_cut [OF l] by simp
    have e: "chunks = (if trim (take k escaped) = [] then [] else [trim (take k escaped)])
                      @ splitChunks (trim (drop k escaped))"
      unfolding chunks_def k_def using splitChunks_long [OF l] k0
      by (simp add: slice_take sliceFrom_drop)
    from a b c d e show "(\<forall>c\<in>set chunks. trim c = c)
          \<and> k \<le> MAX_LENGTH
          \<and> ((\<exists>i\<le>MAX_LENGTH. escaped ! i = NL) \<longrightarrow>
               escaped ! k = NL \<and> (\<forall>j. k < j \<and> j \<le> MAX_LENGTH \<longrightarrow> escaped ! j \<noteq> NL))
          \<and> ((\<forall>i\<le>MAX_LENGTH. escaped ! i \<noteq> NL) \<longrightarrow> k = MAX_LENGTH)
          \<and> chunks = (if trim (take k escaped) = [] then [] else [trim (take k escaped)])
                      @ splitChunks (trim (drop k escaped))"
      by blast
  qed
  have send: "sendSplitMessage w chat msg replyTo tr = (Inr (), tr @ map (sent chat replyTo) chunks)
        \<or> (\<exists>n e. n < length chunks \<and>
              sendSplitMessage w chat msg replyTo tr =
                (Inl e, tr @ map (sent chat replyTo) (take n chunks)
                        @ [Call (SendMessage chat (chunks ! n) replyTo) (Some e)]))"
    unfolding chunks_def escaped_def by (rule sendSplitMessage_cases)
  have ex: "escaped = longOutput \<longrightarrow> chunks = [replicate 4000 exampleA, replicate 1000 exampleB]"
    unfolding chunks_def using splitChunks_longOutput by simp
  from bounds short long send ex show ?thesis
    by (simp only: MAX_LENGTH_def simp_thms)
qed

theorem sendSplitMessage_chunks_witness:
  "MAX_LENGTH < length longOutput \<and> (\<exists>i\<le>MAX_LENGTH. longOutput ! i = NL)
   \<and> longOutput ! nat (nextSplitIndex longOutput) = NL
   \<and> splitChunks longOutput = [replicate 4000 exampleA, replicate 1000 exampleB]
   \<and> trim (replicate 4000 exampleA) = replicate 4000 exampleA
   \<and> trim (replicate 1000 exampleB) = replicate 1000 exampleB
   \<and> length (replicate 4000 exampleA) \<le> MAX_LENGTH
   \<and> sendSplitMessage (testWorld []) 123 longOutput 456 []
       = (Inr (), [sent 123 456 (replicate 4000 exampleA), sent 123 456 (replicate 1000 exampleB)])
   \<and> length untrimmedText \<le> MAX_LENGTH \<and> splitChunks untrimmedText = [untrimmedText]"
proof -
  note T = sendSplitMessage_chunks [where w = "testWorld []" and msg = longOutput and chat = 123
      and replyTo = 456 and tr = "[]", unfolded testWorld_fields]
  note U = sendSplitMessage_chunks [where w = "testWorld []" and msg = untrimmedText and chat = 123
      and replyTo = 456 and tr = "[]", unfolded testWorld_fields]
  have long: "MAX_LENGTH < length longOutput" by (simp add: longOutput_def MAX_LENGTH_def)
  have "longOutput ! 4000 = NL" by (simp add: longOutput_def nth_append)
  then have ex: "\<exists>i\<le>MAX_LENGTH. longOutput ! i = NL"
    by (intro exI [of _ 4000]) (simp add: MAX_LENGTH_def)
  have short: "length untrimmedText \<le> MAX_LENGTH" by (simp add: untrimmedText_def MAX_LENGTH_def js_def)
  have ne: "untrimmedText \<noteq> []" by (simp add: untrimmedText_def)
  from T long ex have t1: "longOutput ! nat (nextSplitIndex longOutput) = NL" by blast
  from T long have t2: "\<forall>c\<in>set (splitChunks longOutput). trim c = c" by blast
  from T have t3: "\<forall>c\<in>set (splitChunks longOutput). c \<noteq> [] \<and> length c \<le> MAX_LENGTH" by blast
  from T have t4: "splitChunks longOutput = [replicate 4000 exampleA, replicate 1000 exampleB]" by blast
  from U short ne have u1: "splitChunks untrimmedText = [untrimmedText]" by simp
  have run: "sendSplitMessage (testWorld []) 123 longOutput 456 []
       = (Inr (), [sent 123 456 (replicate 4000 exampleA), sent 123 456 (replicate 1000 exampleB)])"
    unfolding sendSplitMessage_def Let_def sendSplitLoop_sendAll testWorld_fields t4
    by (simp add: andThen_def call_def callV_def ret_def testWorld_fields sent_def)
  from t2 [unfolded t4]
  have t5: "trim (replicate 4000 exampleA) = replicate 4000 exampleA"
    and t6: "trim (replicate 1000 exampleB) = replicate 1000 exampleB"
    by simp_all
  from t3 [unfolded t4] have t7: "length (replicate 4000 exampleA) \<le> MAX_LENGTH"
    by (simp del: length_replicate)
  from long ex t1 t4 t5 t6 t7 u1 short run show ?thesis by (intro conjI)
qed

text \<open>
  Claim C6 as stated asks for every chunk to be trimmed. An escaped text that fits
  into one message is sent untouched: \<open>done\<close> followed by a line feed goes out with
  its line feed.
\<close>

theorem sendSplitMessage_untrimmed_counterexample:
  "sendSplitMessage (testWorld []) 123 untrimmedText 456 []
     = (Inr (), [Call (SendMessage 123 untrimmedText 456) None])
   \<and> trim untrimmedText \<noteq> untrimmedText"
proof -
  have "splitChunks untrimmedText = [untrimmedText]"
    by (simp add: splitChunks_short MAX_LENGTH_def untrimmedText_def js_def)
  then have "sendSplitMessage (testWorld []) 123 untrimmedText 456 []
     = (Inr (), [Call (SendMessage 123 untrimmedText 456) None])"
    unfolding sendSplitMessage_def Let_def sendSplitLoop_sendAll testWorld_fields
    by (simp add: andThen_def call_def callV_def ret_def testWorld_fields)
  moreover have "trim untrimmedText \<noteq> untrimmedText"
    by (simp add: untrimmedText_def js_def NL_def trim_def isWhiteSpace_def)
  ultimately show ?thesis by simp
qed

text \<open>
  Claim C8. Among the events \<open>processJob\<close> adds, a delivery call (the chat action or
  a message) that fails makes \<open>processJob\<close> raise that very error, and then no rename
  and no removal has been called: the job file stays where it is. A rename, when
  there is one, is the rename of the job file from the scanned directory into the
  job directory, and everything before it succeeded: both reads, the chat action
  and the message for every chunk. When \<open>processJob\<close> returns normally after
  delivering, the rename has succeeded, and \<open>lstat\<close> on the job link has been
  called next; the link is removed exactly when \<open>lstat\<close> succeeds and reports a
  symbolic link.
\<close>

theorem processJob_retires_after_delivery:
  fixes w scanDir jobName tr
  defines "logPath \<equiv> join w [scanDir, jobName]"
    and "metaPath \<equiv> getJobMeta w jobName"
    and "dest \<equiv> join w [getJobDir w jobName, jobName]"
    and "jobLink \<equiv> join w [DATA_DIR w, jobName @ js ''.d'']"
  defines "res \<equiv> fst (processJob w scanDir jobName tr)"
    and "new \<equiv> emitted (processJob w scanDir jobName) tr"
  shows "(\<forall>operation err. Call operation (Some err) \<in> set new \<and> isDeliveryCall (Call operation (Some err))
            \<longrightarrow> res = Inl err \<and> filter isRetireCall new = [])
       \<and> (\<forall>a b out. Call (Rename a b) out \<in> set new \<longrightarrow>
            a = logPath \<and> b = dest \<and>
            (\<exists>meta post.
               parseJobMeta w (readTextFile_text w tr metaPath) = Inr meta \<and>
               new = [Call (ReadTextFile metaPath) None, Call (ReadTextFile logPath) None,
                      Call (SendChatAction (chatId meta)) None]
                     @ map (sent (chatId meta) (messageId meta))
                         (splitChunks (convert w (jobOutput
                            (readTextFile_text w (tr @ [Call (ReadTextFile metaPath) None]) logPath))))
                     @ Call (Rename logPath dest) out # post))
       \<and> (res = Inr () \<and> (\<exists>e\<in>set new. isDeliveryCall e) \<longrightarrow>
            (\<exists>pre cleanup chat.
               new = pre @ [Call (Rename logPath dest) None] @ cleanup
                     @ [ConsoleLog (SentResponse jobName chat)] \<and>
               ((\<exists>e. cleanup = [Call (Lstat jobLink) (Some e)])
                \<or> (cleanup = [Call (Lstat jobLink) None]
                    \<and> \<not> lstat_isSymlink w (tr @ pre @ [Call (Rename logPath dest) None]) jobLink)
                \<or> (\<exists>out. cleanup = [Call (Lstat jobLink) None, Call (Remove jobLink False) out]
                    \<and> lstat_isSymlink w (tr @ pre @ [Call (Rename logPath dest) None]) jobLink))))"
proof -
  define fileText where "fileText = readTextFile_text w (tr @ [Call (ReadTextFile metaPath) None]) logPath"
  define reads where "reads = [Call (ReadTextFile metaPath) None, Call (ReadTextFile logPath) None]"
  define chunks where "chunks = splitChunks (convert w (jobOutput fileText))"
  note O = processJob_outcomes [of w scanDir jobName tr, folded logPath_def metaPath_def dest_def
      jobLink_def res_def new_def, folded fileText_def reads_def, folded chunks_def]
  have A: "\<forall>operation err. Call operation (Some err) \<in> set new \<and> isDeliveryCall (Call operation (Some err))
            \<longrightarrow> res = Inl err \<and> filter isRetireCall new = []"
    using O
    by (elim disjE exE conjE)
       (auto simp: reads_def sent_not_failed sent_neq_failed filter_retire_sent
          dest: cleanup_not_delivery in_set_takeD)
  have new_cases: "(\<forall>e\<in>set new. \<not> isDeliveryCall e \<and> \<not> isRetireCall e)
      \<or> (\<exists>meta. parseJobMeta w (readTextFile_text w tr metaPath) = Inr meta \<and>
            ((\<exists>e. res = Inl e \<and> new = reads @ [Call (SendChatAction (chatId meta)) (Some e)])
           \<or> (\<exists>n e. n < length chunks \<and> res = Inl e \<and>
                 new = reads @ Call (SendChatAction (chatId meta)) None
                       # map (sent (chatId meta) (messageId meta)) (take n chunks)
                       @ [Call (SendMessage (chatId meta) (chunks ! n) (messageId meta)) (Some e)])
           \<or> (\<exists>e. res = Inl e \<and>
                 new = reads @ Call (SendChatAction (chatId meta)) None
                       # map (sent (chatId meta) (messageId meta)) chunks
                       @ [Call (Rename logPath dest) (Some e)])
           \<or> (res = Inr () \<and>
                 new = reads @ Call (SendChatAction (chatId meta)) None
                       # map (sent (chatId meta) (messageId meta)) chunks
                       @ Call (Rename logPath dest) None
                       # cleanupEvents w jobLink
                           (tr @ reads @ Call (SendChatAction (chatId meta)) None
                              # map (sent (chatId meta) (messageId meta)) chunks
                              @ [Call (Rename logPath dest) None])
                       @ [ConsoleLog (SentResponse jobName (chatId meta))])))"
    using O by (elim disjE exE conjE) (simp_all add: reads_def, blast+)
  have B: "\<forall>a b out. Call (Rename a b) out \<in> set new \<longrightarrow>
            a = logPath \<and> b = dest \<and>
            (\<exists>meta post.
               parseJobMeta w (readTextFile_text w tr metaPath) = Inr meta \<and>
               new = [Call (ReadTextFile metaPath) None, Call (ReadTextFile logPath) None,
                      Call (SendChatAction (chatId meta)) None]
                     @ map (sent (chatId meta) (messageId meta)) chunks
                     @ Call (Rename logPath dest) out # post)"
  proof (intro allI impI)
    fix a b out assume r: "Call (Rename a b) out \<in> set new"
    then have "\<not> (\<forall>e\<in>set new. \<not> isDeliveryCall e \<and> \<not> isRetireCall e)" by force
    then have neg: "\<not> (\<forall>e\<in>set new. \<not> isDeliveryCall e \<and> \<not> isRetireCall e)" .
    from new_cases have "\<exists>meta. parseJobMeta w (readTextFile_text w tr metaPath) = Inr meta \<and>
            ((\<exists>e. res = Inl e \<and> new = reads @ [Call (SendChatAction (chatId meta)) (Some e)])
           \<or> (\<exists>n e. n < length chunks \<and> res = Inl e \<and>
                 new = reads @ Call (SendChatAction (chatId meta)) None
                       # map (sent (chatId meta) (messageId meta)) (take n chunks)
                       @ [Call (SendMessage (chatId meta) (chunks ! n) (messageId meta)) (Some e)])
           \<or> (\<exists>e. res = Inl e \<and>
                 new = reads @ Call (SendChatAction (chatId meta)) None
                       # map (sent (chatId meta) (messageId meta)) chunks
                       @ [Call (Rename logPath dest) (Some e)])
           \<or> (res = Inr () \<and>
                 new = reads @ Call (SendChatAction (chatId meta)) None
                       # map (sent (chatId meta) (messageId meta)) chunks
                       @ Call (Rename logPath dest) None
                       # cleanupEvents w jobLink
                           (tr @ reads @ Call (SendChatAction (chatId meta)) None
                              # map (sent (chatId meta) (messageId meta)) chunks
                              @ [Call (Rename logPath dest) None])
                       @ [ConsoleLog (SentResponse jobName (chatId meta))]))"
    proof
      assume "\<forall>e\<in>set new. \<not> isDeliveryCall e \<and> \<not> isRetireCall e"
      with neg show ?thesis by contradiction
    next
      assume "\<exists>meta. parseJobMeta w (readTextFile_text w tr metaPath) = Inr meta \<and>
            ((\<exists>e. res = Inl e \<and> new = reads @ [Call (SendChatAction (chatId meta)) (Some e)])
           \<or> (\<exists>n e. n < length chunks \<and> res = Inl e \<and>
                 new = reads @ Call (SendChatAction (chatId meta)) None
                       # map (sent (chatId meta) (messageId meta)) (take n chunks)
                       @ [Call (SendMessage (chatId meta) (chunks ! n) (messageId meta)) (Some e)])
           \<or> (\<exists>e. res = Inl e \<and>
                 new = reads @ Call (SendChatAction (chatId meta)) None
                       # map (sent (chatId meta) (messageId meta)) chunks
                       @ [Call (Rename logPath dest) (Some e)])
           \<or> (res = Inr () \<and>
                 new = reads @ Call (SendChatAction (chatId meta)) None
                       # map (sent (chatId meta) (messageId meta)) chunks
                       @ Call (Rename logPath dest) None
                       # cleanupEvents w jobLink
                           (tr @ reads @ Call (SendChatAction (chatId meta)) None
                              # map (sent (chatId meta) (messageId meta)) chunks
                              @ [Call (Rename logPath dest) None])
                       @ [ConsoleLog (SentResponse jobName (chatId meta))]))"
      then show ?thesis .
    qed
    then obtain meta where
      p: "parseJobMeta w (readTextFile_text w tr metaPath) = Inr meta"
      and c: "(\<exists>e. res = Inl e \<and> new = reads @ [Call (SendChatAction (chatId meta)) (Some e)])
           \<or> (\<exists>n e. n < length chunks \<and> res = Inl e \<and>
                 new = reads @ Call (SendChatAction (chatId meta)) None
                       # map (sent (chatId meta) (messageId meta)) (take n chunks)
                       @ [Call (SendMessage (chatId meta) (chunks ! n) (messageId meta)) (Some e)])
           \<or> (\<exists>e. res = Inl e \<and>
                 new = reads @ Call (SendChatAction (chatId meta)) None
                       # map (sent (chatId meta) (messageId meta)) chunks
                       @ [Call (Rename logPath dest) (Some e)])
           \<or> (res = Inr () \<and>
                 new = reads @ Call (SendChatAction (chatId meta)) None
                       # map (sent (chatId meta) (messageId meta)) chunks
                       @ Call (Rename logPath dest) None
                       # cleanupEvents w jobLink
                           (tr @ reads @ Call (SendChatAction (chatId meta)) None
                              # map (sent (chatId meta) (messageId meta)) chunks
                              @ [Call (Rename logPath dest) None])
                       @ [ConsoleLog (SentResponse jobName (chatId meta))])"
      by (elim exE conjE)
    from c show "a = logPath \<and> b = dest \<and>
            (\<exists>meta post.
               parseJobMeta w (readTextFile_text w tr metaPath) = Inr meta \<and>
               new = [Call (ReadTextFile metaPath) None, Call (ReadTextFile logPath) None,
                      Call (SendChatAction (chatId meta)) None]
                     @ map (sent (chatId meta) (messageId meta)) chunks
                     @ Call (Rename logPath dest) out # post)"
    proof (elim disjE exE conjE)
      fix e assume "new = reads @ [Call (SendChatAction (chatId meta)) (Some e)]"
      with r show ?thesis by (simp add: reads_def)
    next
      fix n e assume "new = reads @ Call (SendChatAction (chatId meta)) None
                       # map (sent (chatId meta) (messageId meta)) (take n chunks)
                       @ [Call (SendMessage (chatId meta) (chunks ! n) (messageId meta)) (Some e)]"
      with r show ?thesis by (simp add: reads_def sent_not_rename_image)
    next
      fix e assume n: "new = reads @ Call (SendChatAction (chatId meta)) None
                       # map (sent (chatId meta) (messageId meta)) chunks
                       @ [Call (Rename logPath dest) (Some e)]"
      with r have "a = logPath \<and> b = dest \<and> out = Some e" by (simp add: reads_def sent_not_rename_image)
      moreover have "new = [Call (ReadTextFile metaPath) None, Call (ReadTextFile logPath) None,
                      Call (SendChatAction (chatId meta)) None]
                     @ map (sent (chatId meta) (messageId meta)) chunks
                     @ Call (Rename logPath dest) (Some e) # []"
        using n by (simp add: reads_def)
      ultimately show ?thesis using p by blast
    next
      define cleanup where "cleanup = cleanupEvents w jobLink
                           (tr @ reads @ Call (SendChatAction (chatId meta)) None
                              # map (sent (chatId meta) (messageId meta)) chunks
                              @ [Call (Rename logPath dest) None])"
      assume "new = reads @ Call (SendChatAction (chatId meta)) None
                       # map (sent (chatId meta) (messageId meta)) chunks
                       @ Call (Rename logPath dest) None
                       # cleanupEvents w jobLink
                           (tr @ reads @ Call (SendChatAction (chatId meta)) None
                              # map (sent (chatId meta) (messageId meta)) chunks
                              @ [Call (Rename logPath dest) None])
                       @ [ConsoleLog (SentResponse jobName (chatId meta))]"
      then have n: "new = reads @ Call (SendChatAction (chatId meta)) None
                       # map (sent (chatId meta) (messageId meta)) chunks
                       @ Call (Rename logPath dest) None # cleanup
                       @ [ConsoleLog (SentResponse jobName (chatId meta))]"
        by (simp only: cleanup_def)
      have nc: "Call (Rename a b) out \<notin> set cleanup"
        unfolding cleanup_def by (rule cleanup_not_rename)
      from r n nc have "a = logPath \<and> b = dest \<and> out = None" by (simp add: reads_def sent_not_rename_image)
      moreover have "new = [Call (ReadTextFile metaPath) None, Call (ReadTextFile logPath) None,
                      Call (SendChatAction (chatId meta)) None]
                     @ map (sent (chatId meta) (messageId meta)) chunks
                     @ Call (Rename logPath dest) None # (cleanup @ [ConsoleLog (SentResponse jobName (chatId meta))])"
        using n by (simp add: reads_def)
      ultimately show ?thesis using p by blast
    qed
  qed
  have C: "res = Inr () \<and> (\<exists>e\<in>set new. isDeliveryCall e) \<longrightarrow>
            (\<exists>pre cleanup chat.
               new = pre @ [Call (Rename logPath dest) None] @ cleanup
                     @ [ConsoleLog (SentResponse jobName chat)] \<and>
               ((\<exists>e. cleanup = [Call (Lstat jobLink) (Some e)])
                \<or> (cleanup = [Call (Lstat jobLink) None]
                    \<and> \<not> lstat_isSymlink w (tr @ pre @ [Call (Rename logPath dest) None]) jobLink)
                \<or> (\<exists>out. cleanup = [Call (Lstat jobLink) None, Call (Remove jobLink False) out]
                    \<and> lstat_isSymlink w (tr @ pre @ [Call (Rename logPath dest) None]) jobLink)))"
  proof
    assume h: "res = Inr () \<and> (\<exists>e\<in>set new. isDeliveryCall e)"
    then have "\<not> (\<forall>e\<in>set new. \<not> isDeliveryCall e \<and> \<not> isRetireCall e)" by blast
    then have neg: "\<not> (\<forall>e\<in>set new. \<not> isDeliveryCall e \<and> \<not> isRetireCall e)" .
    from new_cases have "\<exists>meta. parseJobMeta w (readTextFile_text w tr metaPath) = Inr meta \<and>
            ((\<exists>e. res = Inl e \<and> new = reads @ [Call (SendChatAction (chatId meta)) (Some e)])
           \<or> (\<exists>n e. n < length chunks \<and> res = Inl e \<and>
                 new = reads @ Call (SendChatAction (chatId meta)) None
                       # map (sent (chatId meta) (messageId meta)) (take n chunks)
                       @ [Call (SendMessage (chatId meta) (chunks ! n) (messageId meta)) (Some e)])
           \<or> (\<exists>e. res = Inl e \<and>
                 new = reads @ Call (SendChatAction (chatId meta)) None
                       # map (sent (chatId meta) (messageId meta)) chunks
                       @ [Call (Rename logPath dest) (Some e)])
           \<or> (res = Inr () \<and>
                 new = reads @ Call (SendChatAction (chatId meta)) None
                       # map (sent (chatId meta) (messageId meta)) chunks
                       @ Call (Rename logPath dest) None
                       # cleanupEvents w jobLink
                           (tr @ reads @ Call (SendChatAction (chatId meta)) None
                              # map (sent (chatId meta) (messageId meta)) chunks
                              @ [Call (Rename logPath dest) None])
                       @ [ConsoleLog (SentResponse jobName (chatId meta))]))"
    proof
      assume "\<forall>e\<in>set new. \<not> isDeliveryCall e \<and> \<not> isRetireCall e"
      with neg show ?thesis by contradiction
    next
      assume "\<exists>meta. parseJobMeta w (readTextFile_text w tr metaPath) = Inr meta \<and>
            ((\<exists>e. res = Inl e \<and> new = reads @ [Call (SendChatAction (chatId meta)) (Some e)])
           \<or> (\<exists>n e. n < length chunks \<and> res = Inl e \<and>
                 new = reads @ Call (SendChatAction (chatId meta)) None
                       # map (sent (chatId meta) (messageId meta)) (take n chunks)
                       @ [Call (SendMessage (chatId meta) (chunks ! n) (messageId meta)) (Some e)])
           \<or> (\<exists>e. res = Inl e \<and>
                 new = reads @ Call (SendChatAction (chatId meta)) None
                       # map (sent (chatId meta) (messageId meta)) chunks
                       @ [Call (Rename logPath dest) (Some e)])
           \<or> (res = Inr () \<and>
                 new = reads @ Call (SendChatAction (chatId meta)) None
                       # map (sent (chatId meta) (messageId meta)) chunks
                       @ Call (Rename logPath dest) None
                       # cleanupEvents w jobLink
                           (tr @ reads @ Call (SendChatAction (chatId meta)) None
                              # map (sent (chatId meta) (messageId meta)) chunks
                              @ [Call (Rename logPath dest) None])
                       @ [ConsoleLog (SentResponse jobName (chatId meta))]))"
      then show ?thesis .
    qed
    then obtain meta where
      p: "parseJobMeta w (readTextFile_text w tr metaPath) = Inr meta"
      and c: "(\<exists>e. res = Inl e \<and> new = reads @ [Call (SendChatAction (chatId meta)) (Some e)])
           \<or> (\<exists>n e. n < length chunks \<and> res = Inl e \<and>
                 new = reads @ Call (SendChatAction (chatId meta)) None
                       # map (sent (chatId meta) (messageId meta)) (take n chunks)
                       @ [Call (SendMessage (chatId meta) (chunks ! n) (messageId meta)) (Some e)])
           \<or> (\<exists>e. res = Inl e \<and>
                 new = reads @ Call (SendChatAction (chatId meta)) None
                       # map (sent (chatId meta) (messageId meta)) chunks
                       @ [Call (Rename logPath dest) (Some e)])
           \<or> (res = Inr () \<and>
                 new = reads @ Call (SendChatAction (chatId meta)) None
                       # map (sent (chatId meta) (messageId meta)) chunks
                       @ Call (Rename logPath dest) None
                       # cleanupEvents w jobLink
                           (tr @ reads @ Call (SendChatAction (chatId meta)) None
                              # map (sent (chatId meta) (messageId meta)) chunks
                              @ [Call (Rename logPath dest) None])
                       @ [ConsoleLog (SentResponse jobName (chatId meta))])"
      by (elim exE conjE)
    from c h have
      n: "new = reads @ Call (SendChatAction (chatId meta)) None
                       # map (sent (chatId meta) (messageId meta)) chunks
                       @ Call (Rename logPath dest) None
                       # cleanupEvents w jobLink
                           (tr @ reads @ Call (SendChatAction (chatId meta)) None
                              # map (sent (chatId meta) (messageId meta)) chunks
                              @ [Call (Rename logPath dest) None])
                       @ [ConsoleLog (SentResponse jobName (chatId meta))]"
      by (elim disjE exE conjE) simp_all
    let ?pre = "reads @ Call (SendChatAction (chatId meta)) None
                       # map (sent (chatId meta) (messageId meta)) chunks"
    let ?t = "tr @ ?pre @ [Call (Rename logPath dest) None]"
    have n': "new = ?pre @ [Call (Rename logPath dest) None] @ cleanupEvents w jobLink ?t
                     @ [ConsoleLog (SentResponse jobName (chatId meta))]"
      using n by simp
    from cleanup_forms [of w jobLink ?t] n'
    show "\<exists>pre cleanup chat.
               new = pre @ [Call (Rename logPath dest) None] @ cleanup
                     @ [ConsoleLog (SentResponse jobName chat)] \<and>
               ((\<exists>e. cleanup = [Call (Lstat jobLink) (Some e)])
                \<or> (cleanup = [Call (Lstat jobLink) None]
                    \<and> \<not> lstat_isSymlink w (tr @ pre @ [Call (Rename logPath dest) None]) jobLink)
                \<or> (\<exists>out. cleanup = [Call (Lstat jobLink) None, Call (Remove jobLink False) out]
                    \<and> lstat_isSymlink w (tr @ pre @ [Call (Rename logPath dest) None]) jobLink))"
      by blast
  qed
  from A B C show ?thesis unfolding chunks_def fileText_def by blast
qed

theorem processJob_retires_after_delivery_witness:
  "Call (SendMessage 123 helloWorld 456) (Some (Error (js ''send failed'')))
     \<in> set (emitted (processJob (sendFailsWorld shortJobText) (js ''/queue/completed'') (js '',job'')) [])
   \<and> fst (processJob (sendFailsWorld shortJobText) (js ''/queue/completed'') (js '',job'') [])
       = Inl (Error (js ''send failed''))
   \<and> filter isRetireCall
        (emitted (processJob (sendFailsWorld shortJobText) (js ''/queue/completed'') (js '',job'')) []) = []
   \<and> fst (processJob (testWorld shortJobText) (js ''/queue/completed'') (js '',job'') []) = Inr ()
   \<and> Call (Rename (js ''/queue/completed/,job'') (js ''/data/,job.d/,job'')) None
     \<in> set (emitted (processJob (testWorld shortJobText) (js ''/queue/completed'') (js '',job'')) [])
   \<and> js ''/queue/completed/,job'' = join (testWorld shortJobText) [js ''/queue/completed'', js '',job'']
   \<and> js ''/data/,job.d/,job''
       = join (testWorld shortJobText) [getJobDir (testWorld shortJobText) (js '',job''), js '',job'']"
proof -
  note F = processJob_retires_after_delivery [where w = "sendFailsWorld shortJobText"
      and scanDir = "js ''/queue/completed''" and jobName = "js '',job''" and tr = "[]"]
  note T = processJob_retires_after_delivery [where w = "testWorld shortJobText"
      and scanDir = "js ''/queue/completed''" and jobName = "js '',job''" and tr = "[]"]
  have f1: "Call (SendMessage 123 helloWorld 456) (Some (Error (js ''send failed'')))
     \<in> set (emitted (processJob (sendFailsWorld shortJobText) (js ''/queue/completed'') (js '',job'')) [])"
    by (simp add: emitted_def processJob_sendFailsWorld_run)
  have f2: "isDeliveryCall (Call (SendMessage 123 helloWorld 456) (Some (Error (js ''send failed''))))"
    by simp
  from F f1 f2 have f3: "fst (processJob (sendFailsWorld shortJobText) (js ''/queue/completed'') (js '',job'') [])
       = Inl (Error (js ''send failed''))
     \<and> filter isRetireCall
        (emitted (processJob (sendFailsWorld shortJobText) (js ''/queue/completed'') (js '',job'')) []) = []"
    by blast
  have t1: "Call (Rename (js ''/queue/completed/,job'') (js ''/data/,job.d/,job'')) None
     \<in> set (emitted (processJob (testWorld shortJobText) (js ''/queue/completed'') (js '',job'')) [])"
    by (simp add: emitted_def processJob_testWorld_run)
  from T t1 have t2: "js ''/queue/completed/,job'' = join (testWorld shortJobText) [js ''/queue/completed'', js '',job'']
   \<and> js ''/data/,job.d/,job''
       = join (testWorld shortJobText) [getJobDir (testWorld shortJobText) (js '',job''), js '',job'']"
    by blast
  have t3: "fst (processJob (testWorld shortJobText) (js ''/queue/completed'') (js '',job'') []) = Inr ()"
    by (simp add: processJob_testWorld_run)
  from f1 f3 t1 t2 t3 show ?thesis by blast
qed

text \<open>
  Claim C9. The startup scan calls nothing but \<open>readDir\<close> on the scanned directory
  and the calls of \<open>processJob\<close> for entries of that directory that are files and
  whose name starts with a comma. The loop over the paths of a file-system event
  calls nothing but \<open>stat\<close> and the calls of \<open>processJob\<close> for paths whose base name
  starts with a comma; paths whose base name does not start with a comma leave the
  trace and the guard set untouched, for one event and for any number of them.
\<close>

theorem egress_only_touches_comma_files:
  "(\<forall>operation out. Call operation out \<in> set (emitted (scanAndProcess w scanDir) tr) \<longrightarrow>
       operation = ReadDir scanDir
       \<or> (\<exists>entry\<in>set (readDir_entries w tr scanDir).
             entry_isFile entry \<and> startsWith (entry_name entry) (js '','')
             \<and> jobCall w scanDir (entry_name entry) operation))
   \<and> (\<forall>operation out. Call operation out \<in> set (emitted (watchPaths w processing paths) tr) \<longrightarrow>
       (\<exists>path\<in>set paths. startsWith (basename w path) (js '','') \<and>
          (operation = Stat path \<or> operation = Stat (getJobMeta w (basename w path))
           \<or> jobCall w (dirname w path) (basename w path) operation)))
   \<and> ((\<forall>path\<in>set paths. \<not> startsWith (basename w path) (js '',''))
        \<longrightarrow> watchPaths w processing paths tr = (Inr processing, tr))
   \<and> ((\<forall>ev\<in>set events. \<forall>path\<in>set (event_paths ev). \<not> startsWith (basename w path) (js '',''))
        \<longrightarrow> watchLoop w processing events tr = (Inr (), tr))"
proof (intro conjI allI impI)
  fix operation out
  assume "Call operation out \<in> set (emitted (scanAndProcess w scanDir) tr)"
  from scanAndProcess_events [OF this]
  have "operation = ReadDir scanDir \<or> (\<exists>n\<in>set (scanJobs w scanDir tr). jobCall w scanDir n operation)"
    by auto
  then show "operation = ReadDir scanDir
       \<or> (\<exists>entry\<in>set (readDir_entries w tr scanDir).
             entry_isFile entry \<and> startsWith (entry_name entry) (js '','')
             \<and> jobCall w scanDir (entry_name entry) operation)"
    using set_scanJobs [of _ w scanDir tr] by blast
next
  fix operation out
  assume "Call operation out \<in> set (emitted (watchPaths w processing paths) tr)"
  from emits_emitted [OF emits_watchPaths this]
  show "\<exists>path\<in>set paths. startsWith (basename w path) (js '','') \<and>
          (operation = Stat path \<or> operation = Stat (getJobMeta w (basename w path))
           \<or> jobCall w (dirname w path) (basename w path) operation)"
    by simp
next
  assume "\<forall>path\<in>set paths. \<not> startsWith (basename w path) (js '','')"
  then show "watchPaths w processing paths tr = (Inr processing, tr)" by (rule watchPaths_skip)
next
  assume "\<forall>ev\<in>set events. \<forall>path\<in>set (event_paths ev). \<not> startsWith (basename w path) (js '','')"
  then show "watchLoop w processing events tr = (Inr (), tr)" by (rule watchLoop_skip)
qed

theorem egress_only_touches_comma_files_witness:
  "Call (ReadTextFile (js ''/queue/completed/,job'')) None
     \<in> set (emitted (scanAndProcess (testWorld shortJobText) (js ''/queue/completed'')) [])
   \<and> (\<exists>entry\<in>set (readDir_entries (testWorld shortJobText) [] (js ''/queue/completed'')).
         entry_isFile entry \<and> startsWith (entry_name entry) (js '','')
         \<and> jobCall (testWorld shortJobText) (js ''/queue/completed'') (entry_name entry)
              (ReadTextFile (js ''/queue/completed/,job'')))
   \<and> \<not> startsWith (basename (testWorld shortJobText) (js ''/queue/completed/notes.txt'')) (js '','')
   \<and> watchPaths (testWorld shortJobText) {} [js ''/queue/completed/notes.txt''] [] = (Inr {}, [])
   \<and> watchLoop (testWorld shortJobText) {}
        [\<lparr> event_kind = KindCreate, event_paths = [js ''/queue/completed/notes.txt''] \<rparr>] [] = (Inr (), [])"
proof -
  note T = egress_only_touches_comma_files [where w = "testWorld shortJobText"
      and scanDir = "js ''/queue/completed''" and tr = "[]" and processing = "{}"
      and paths = "[js ''/queue/completed/notes.txt'']"
      and events = "[\<lparr> event_kind = KindCreate, event_paths = [js ''/queue/completed/notes.txt''] \<rparr>]"]
  have e: "Call (ReadTextFile (js ''/queue/completed/,job'')) None
     \<in> set (emitted (scanAndProcess (testWorld shortJobText) (js ''/queue/completed'')) [])"
    by (simp add: emitted_def scanAndProcess_testWorld_run)
  have n: "\<not> startsWith (basename (testWorld shortJobText) (js ''/queue/completed/notes.txt'')) (js '','')"
    unfolding testWorld_basename basename_notes by (simp add: startsWith_def js_def)
  from T e have 1: "\<exists>entry\<in>set (readDir_entries (testWorld shortJobText) [] (js ''/queue/completed'')).
         entry_isFile entry \<and> startsWith (entry_name entry) (js '','')
         \<and> jobCall (testWorld shortJobText) (js ''/queue/completed'') (entry_name entry)
              (ReadTextFile (js ''/queue/completed/,job''))"
    by blast
  from T n have 2: "watchPaths (testWorld shortJobText) {} [js ''/queue/completed/notes.txt''] [] = (Inr {}, [])"
    by simp
  from T n have 3: "watchLoop (testWorld shortJobText) {}
        [\<lparr> event_kind = KindCreate, event_paths = [js ''/queue/completed/notes.txt''] \<rparr>] [] = (Inr (), [])"
    by simp
  from e n 1 2 3 show ?thesis by blast
qed

section \<open>Ingress: the claims\<close>

text \<open>
  Claim C7. For a message whose sender is not in the allow-list (or has no id), the
  handler writes its two log lines and returns: it calls nothing, so no directory
  is created, nothing is downloaded, no file is written and the queue is not
  invoked.
\<close>

theorem ingress_ignores_unlisted_sender:
  assumes "\<forall>u. ctxUserId ctx = Some u \<longrightarrow> numberToString u \<notin> allowedIds"
  shows "createIngressHandler w allowedIds ctx tr =
           (Inr (), tr @ [ConsoleLog (IngressMessage (ctxUsername ctx) (ctxUserId ctx) (ctxDetails ctx)),
                          ConsoleLog (IngressSkipped (isMissingId ctx) False)])
         \<and> filter isCall (emitted (createIngressHandler w allowedIds ctx) tr) = []"
proof -
  have a: "\<not> isAllowed allowedIds ctx"
    using assms by (auto simp: isAllowed_def split: option.splits)
  then have r: "rejected allowedIds ctx" by (simp add: rejected_def)
  have run: "createIngressHandler w allowedIds ctx tr =
           (Inr (), tr @ [ConsoleLog (IngressMessage (ctxUsername ctx) (ctxUserId ctx) (ctxDetails ctx)),
                          ConsoleLog (IngressSkipped (isMissingId ctx) False)])"
    using a r by (simp add: createIngressHandler_def Let_def andThen_def consoleLog_def)
  show ?thesis
    using run by (simp add: emitted_append [where m = "createIngressHandler w allowedIds ctx", OF run])
qed

theorem ingress_ignores_unlisted_sender_witness:
  "numberToString 999 \<notin> {js ''123''}
   \<and> createIngressHandler (testWorld []) {js ''123''} (testContext 999 (textMessage (js ''hello''))) [] =
       (Inr (), [ConsoleLog (IngressMessage (js ''user'') (Some 999) [js ''type=text'', js ''text=hello'']),
                 ConsoleLog (IngressSkipped False False)])"
proof -
  have n: "numberToString 999 \<notin> {js ''123''}"
    unfolding numberToString_examples using js_123_neq_999 by simp
  have "\<forall>u. ctxUserId (testContext 999 (textMessage (js ''hello''))) = Some u
          \<longrightarrow> numberToString u \<notin> {js ''123''}"
    using n by (simp add: testContext_fields)
  from ingress_ignores_unlisted_sender [OF this, of "testWorld []" "[]"] n
  show ?thesis
    by (simp add: testContext_fields testContext_details isMissingId_def)
qed

text \<open>
  Claim C2 says that no failure leaves the handler. The first typing indicator
  (line 286) is sent before the \<open>try\<close> block of line 288: when the chat service
  rejects it, the handler raises. (\<open>ingress_raises_iff\<close> shows that this is the only
  such call: every later failure ends in the \<open>catch\<close> of line 406.)
\<close>

theorem ingress_first_acknowledgment_escapes:
  "createIngressHandler typingFailsWorld {js ''123''} (testContext 123 (textMessage (js ''hello''))) [] =
     (Inl (Error (js ''network'')),
      [ConsoleLog (IngressMessage (js ''user'') (Some 123) [js ''type=text'', js ''text=hello'']),
       Call ReplyWithChatAction (Some (Error (js ''network'')))])"
  unfolding createIngressHandler_def Let_def testContext_fields testContext_details typingFailsWorld_fails
  by (simp add: accepted_test io_defs typingFailsWorld_fails)

text \<open>
  Claim C3, as amended. Every directory the handler creates is requested with mode
  \<open>0o755\<close>: read, write and execute for the owner, read and execute for the group
  and for others. For an admitted message whose first typing indicator went
  through, the next call creates the Message Directory with that mode.
\<close>

theorem ingress_creates_message_directory_mode_755:
  fixes w allowedIds ctx tr
  defines "new \<equiv> emitted (createIngressHandler w allowedIds ctx) tr"
    and "logged \<equiv> ConsoleLog (IngressMessage (ctxUsername ctx) (ctxUserId ctx) (ctxDetails ctx))"
  shows "(\<forall>p mode out. Call (Mkdir p mode) out \<in> set new \<longrightarrow> mode = MODE_755)
     \<and> (MODE_755 div 64) mod 8 = 7 \<and> (MODE_755 div 8) mod 8 = 5 \<and> MODE_755 mod 8 = 5
     \<and> (\<not> rejected allowedIds ctx \<and> fails w (tr @ [logged]) ReplyWithChatAction = None
          \<and> ctxChatId ctx = Some chat \<and> ctxMessageId ctx = Some message
         \<longrightarrow> (\<exists>out rest.
               new = [logged, Call ReplyWithChatAction None,
                      Call (Mkdir (getMessageDir w (js ''telegram'')
                                     (numberToString chat @ js ''_'' @ numberToString message))
                              MODE_755) out] @ rest))"
proof (intro conjI allI impI)
  fix p mode out
  assume "Call (Mkdir p mode) out \<in> set new"
  from emits_emitted [OF emits_createIngressHandler_mode this [unfolded new_def]]
  show "mode = MODE_755" by simp
next
  show "(MODE_755 div 64) mod 8 = 7" "(MODE_755 div 8) mod 8 = 5" "MODE_755 mod 8 = 5"
    by (simp_all add: MODE_755_def)
next
  assume a: "\<not> rejected allowedIds ctx \<and> fails w (tr @ [logged]) ReplyWithChatAction = None
          \<and> ctxChatId ctx = Some chat \<and> ctxMessageId ctx = Some message"
  let ?tr2 = "tr @ [logged, Call ReplyWithChatAction None]"
  let ?body = "ingressBody w chat message (ctxUserId ctx) (ctxText ctx) (ctxQuote ctx)
                 (extractAttachments (ctx_message ctx))"
  let ?dir = "getMessageDir w (js ''telegram'') (numberToString chat @ js ''_'' @ numberToString message)"
  have run: "createIngressHandler w allowedIds ctx tr
      = tryCatch ?body (\<lambda>err. consoleError (IngressError err)) ?tr2"
    using a unfolding logged_def
    by (simp add: createIngressHandler_def Let_def andThen_def consoleLog_def call_def callV_def)
  from ingressBody_starts_with_mkdir [of w chat message _ _ _ _ ?tr2]
  obtain out rest where b: "snd (?body ?tr2) = ?tr2 @ Call (Mkdir ?dir MODE_755) out # rest" by blast
  from tryCatch_log_extends [of ?body IngressError ?tr2]
  obtain rest' where "snd (tryCatch ?body (\<lambda>err. consoleError (IngressError err)) ?tr2)
      = snd (?body ?tr2) @ rest'" by blast
  with run b have "snd (createIngressHandler w allowedIds ctx tr)
      = tr @ [logged, Call ReplyWithChatAction None, Call (Mkdir ?dir MODE_755) out] @ rest @ rest'"
    by simp
  then have "new = [logged, Call ReplyWithChatAction None, Call (Mkdir ?dir MODE_755) out] @ (rest @ rest')"
    by (simp add: new_def emitted_def)
  then show "\<exists>out rest.
               new = [logged, Call ReplyWithChatAction None,
                      Call (Mkdir ?dir MODE_755) out] @ rest"
    by blast
qed

theorem ingress_creates_message_directory_mode_755_witness:
  "\<not> rejected {js ''123''} (testContext 123 (textMessage (js ''hello'')))
   \<and> (\<exists>out rest.
         emitted (createIngressHandler (testWorld []) {js ''123''}
                    (testContext 123 (textMessage (js ''hello'')))) []
         = [ConsoleLog (IngressMessage (js ''user'') (Some 123) [js ''type=text'', js ''text=hello'']),
            Call ReplyWithChatAction None,
            Call (Mkdir (getMessageDir (testWorld []) (js ''telegram'')
                           (numberToString 456 @ js ''_'' @ numberToString 789)) MODE_755) out] @ rest)
   \<and> Call (Mkdir testMessageDir MODE_755) None
       \<in> set (emitted (createIngressHandler (testWorld []) {js ''123''}
                      (testContext 123 (textMessage (js ''hello'')))) [])"
proof -
  note T = ingress_creates_message_directory_mode_755 [where w = "testWorld []"
      and allowedIds = "{js ''123''}" and ctx = "testContext 123 (textMessage (js ''hello''))"
      and tr = "[]" and chat = 456 and message = 789]
  have f: "fails (testWorld []) ([] @ [ConsoleLog (IngressMessage
        (ctxUsername (testContext 123 (textMessage (js ''hello''))))
        (ctxUserId (testContext 123 (textMessage (js ''hello''))))
        (ctxDetails (testContext 123 (textMessage (js ''hello'')))))]) ReplyWithChatAction = None"
    by (simp add: testWorld_fields)
  have i: "ctxChatId (testContext 123 (textMessage (js ''hello''))) = Some 456"
    "ctxMessageId (testContext 123 (textMessage (js ''hello''))) = Some 789"
    by (simp_all add: testContext_fields)
  from T accepted_test f i
  have "\<exists>out rest.
         emitted (createIngressHandler (testWorld []) {js ''123''}
                    (testContext 123 (textMessage (js ''hello'')))) []
         = [ConsoleLog (IngressMessage
              (ctxUsername (testContext 123 (textMessage (js ''hello''))))
              (ctxUserId (testContext 123 (textMessage (js ''hello''))))
              (ctxDetails (testContext 123 (textMessage (js ''hello''))))),
            Call ReplyWithChatAction None,
            Call (Mkdir (getMessageDir (testWorld []) (js ''telegram'')
                           (numberToString 456 @ js ''_'' @ numberToString 789)) MODE_755) out] @ rest"
    by blast
  then have 1: "\<exists>out rest.
         emitted (createIngressHandler (testWorld []) {js ''123''}
                    (testContext 123 (textMessage (js ''hello'')))) []
         = [ConsoleLog (IngressMessage (js ''user'') (Some 123) [js ''type=text'', js ''text=hello'']),
            Call ReplyWithChatAction None,
            Call (Mkdir (getMessageDir (testWorld []) (js ''telegram'')
                           (numberToString 456 @ js ''_'' @ numberToString 789)) MODE_755) out] @ rest"
    by (simp only: testContext_fields testContext_details)
  have 2: "Call (Mkdir testMessageDir MODE_755) None
       \<in> set (emitted (createIngressHandler (testWorld []) {js ''123''}
                      (testContext 123 (textMessage (js ''hello'')))) [])"
    by (simp add: emitted_def createIngressHandler_testWorld_run)
  from accepted_test 1 2 show ?thesis by blast
qed

text \<open>
  Claim C3 as stated asks for a mode that gives group and others nothing. The
  directory of the test message is requested with \<open>0o755 = 493\<close>.
\<close>

theorem ingress_message_directory_not_owner_only_counterexample:
  "Call (Mkdir testMessageDir 493) None
     \<in> set (emitted (createIngressHandler (testWorld []) {js ''123''}
                      (testContext 123 (textMessage (js ''hello'')))) [])
   \<and> \<not> ownerOnly 493"
  by (simp add: emitted_def createIngressHandler_testWorld_run MODE_755_def ownerOnly_def)

text \<open>
  Claim C10. When the call that creates the job link fails, the handler still
  returns normally. The failed call comes right after the successful queue
  submission and is followed by the error log line, the write of \<open>meta.json\<close> into
  the Message Directory and, when that write succeeds, the log line that reports
  the job as queued; nothing is removed or undone.
\<close>

theorem ingress_commits_when_symlink_fails:
  fixes w allowedIds ctx tr chat message
  defines "messageDir \<equiv> getMessageDir w (js ''telegram'')
                           (numberToString chat @ js ''_'' @ numberToString message)"
    and "new \<equiv> emitted (createIngressHandler w allowedIds ctx) tr"
  assumes ids: "ctxChatId ctx = Some chat" "ctxMessageId ctx = Some message"
  shows "\<forall>target link err. Call (Symlink target link) (Some err) \<in> set new \<longrightarrow>
     fst (createIngressHandler w allowedIds ctx tr) = Inr () \<and> target = messageDir \<and>
     (\<exists>pre args jobFile written.
        link = join w [DATA_DIR w, jobFile @ js ''.d''] \<and>
        new = pre @ [Call (RunNq args) None,
                     Call (Symlink messageDir link) (Some err),
                     ConsoleError (SymlinkFailed link err),
                     Call (WriteTextFile (join w [messageDir, js ''meta.json''])
                             (stringifyJobMeta w
                                \<lparr> chatId = chat, messageId = message, userId = ctxUserId ctx \<rparr>)) written,
                     (case written of
                        None \<Rightarrow> ConsoleLog (Queued jobFile (ctxUserId ctx))
                      | Some e \<Rightarrow> ConsoleError (IngressError e))])"
proof (intro allI impI)
  fix target link err
  assume s: "Call (Symlink target link) (Some err) \<in> set new"
  let ?res = "fst (createIngressHandler w allowedIds ctx tr)"
  from postD [OF post_createIngressHandler [OF ids], of w allowedIds tr]
  have "commitsOrLogs w messageDir chat message (ctxUserId ctx) ?res new"
    by (simp add: messageDir_def new_def)
  moreover have "\<not> (\<forall>e\<in>set new. \<not> isSymlinkCall e)" using s by force
  ultimately obtain pre args jobFile linked written where
    p: "\<forall>e\<in>set pre. \<not> isSymlinkCall e"
    and n: "new = pre @ Call (RunNq args) None
                 # commitEvents w messageDir chat message (ctxUserId ctx) jobFile linked written
                 @ (case written of None \<Rightarrow> [] | Some e \<Rightarrow> [ConsoleError (IngressError e)])"
    and r: "?res = Inr ()"
    unfolding commitsOrLogs_def by blast
  define tail where "tail = commitEvents w messageDir chat message (ctxUserId ctx) jobFile linked written
                 @ (case written of None \<Rightarrow> [] | Some e \<Rightarrow> [ConsoleError (IngressError e)])"
  have n': "new = pre @ Call (RunNq args) None # tail" using n by (simp add: tail_def)
  have "Call (Symlink target link) (Some err) \<notin> set pre" using p by force
  with s n' have "Call (Symlink target link) (Some err) \<in> set tail" by simp
  from symlink_in_commitEvents [OF this [unfolded tail_def]]
  have t: "target = messageDir" and l: "link = join w [DATA_DIR w, jobFile @ js ''.d'']"
    and k: "linked = Some err" by simp_all
  have "tail = [Call (Symlink messageDir link) (Some err),
                ConsoleError (SymlinkFailed link err),
                Call (WriteTextFile (join w [messageDir, js ''meta.json''])
                        (stringifyJobMeta w
                           \<lparr> chatId = chat, messageId = message, userId = ctxUserId ctx \<rparr>)) written,
                (case written of
                   None \<Rightarrow> ConsoleLog (Queued jobFile (ctxUserId ctx))
                 | Some e \<Rightarrow> ConsoleError (IngressError e))]"
    unfolding tail_def k l by (rule commitEvents_symlink_failed)
  with n' have "new = pre @ [Call (RunNq args) None,
                     Call (Symlink messageDir link) (Some err),
                     ConsoleError (SymlinkFailed link err),
                     Call (WriteTextFile (join w [messageDir, js ''meta.json''])
                             (stringifyJobMeta w
                                \<lparr> chatId = chat, messageId = message, userId = ctxUserId ctx \<rparr>)) written,
                     (case written of
                        None \<Rightarrow> ConsoleLog (Queued jobFile (ctxUserId ctx))
                      | Some e \<Rightarrow> ConsoleError (IngressError e))]"
    by simp
  with r t l show "?res = Inr () \<and> target = messageDir \<and>
     (\<exists>pre args jobFile written.
        link = join w [DATA_DIR w, jobFile @ js ''.d''] \<and>
        new = pre @ [Call (RunNq args) None,
                     Call (Symlink messageDir link) (Some err),
                     ConsoleError (SymlinkFailed link err),
                     Call (WriteTextFile (join w [messageDir, js ''meta.json''])
                             (stringifyJobMeta w
                                \<lparr> chatId = chat, messageId = message, userId = ctxUserId ctx \<rparr>)) written,
                     (case written of
                        None \<Rightarrow> ConsoleLog (Queued jobFile (ctxUserId ctx))
                      | Some e \<Rightarrow> ConsoleError (IngressError e))])"
    by blast
qed

theorem ingress_commits_when_symlink_fails_witness:
  "Call (Symlink testMessageDir (js ''/data/,job.d'')) (Some (Error (js ''exists'')))
     \<in> set (emitted (createIngressHandler symlinkFailsWorld {js ''123''}
                       (testContext 123 (textMessage (js ''hello'')))) [])
   \<and> fst (createIngressHandler symlinkFailsWorld {js ''123''}
            (testContext 123 (textMessage (js ''hello''))) []) = Inr ()
   \<and> testMessageDir = getMessageDir symlinkFailsWorld (js ''telegram'')
                         (numberToString 456 @ js ''_'' @ numberToString 789)
   \<and> Call (WriteTextFile (testMessageDir @ js ''/meta.json'') (js ''{}'')) None
     \<in> set (emitted (createIngressHandler symlinkFailsWorld {js ''123''}
                       (testContext 123 (textMessage (js ''hello'')))) [])
   \<and> ConsoleLog (Queued (js '',job'') (Some 123))
     \<in> set (emitted (createIngressHandler symlinkFailsWorld {js ''123''}
                       (testContext 123 (textMessage (js ''hello'')))) [])"
proof -
  have i: "ctxChatId (testContext 123 (textMessage (js ''hello''))) = Some 456"
    "ctxMessageId (testContext 123 (textMessage (js ''hello''))) = Some 789"
    by (simp_all add: testContext_fields)
  note T = ingress_commits_when_symlink_fails [OF i, of symlinkFailsWorld "{js ''123''}" "[]"]
  have s: "Call (Symlink testMessageDir (js ''/data/,job.d'')) (Some (Error (js ''exists'')))
     \<in> set (emitted (createIngressHandler symlinkFailsWorld {js ''123''}
                       (testContext 123 (textMessage (js ''hello'')))) [])"
    by (simp add: emitted_def createIngressHandler_symlinkFailsWorld_run)
  from T s have 1: "fst (createIngressHandler symlinkFailsWorld {js ''123''}
            (testContext 123 (textMessage (js ''hello''))) []) = Inr ()
     \<and> testMessageDir = getMessageDir symlinkFailsWorld (js ''telegram'')
                         (numberToString 456 @ js ''_'' @ numberToString 789)"
    by blast
  have 2: "Call (WriteTextFile (testMessageDir @ js ''/meta.json'') (js ''{}'')) None
     \<in> set (emitted (createIngressHandler symlinkFailsWorld {js ''123''}
                       (testContext 123 (textMessage (js ''hello'')))) [])"
    "ConsoleLog (Queued (js '',job'') (Some 123))
     \<in> set (emitted (createIngressHandler symlinkFailsWorld {js ''123''}
                       (testContext 123 (textMessage (js ''hello'')))) [])"
    by (simp_all add: emitted_def createIngressHandler_symlinkFailsWorld_run)
  from s 1 2 show ?thesis by blast
qed

text \<open>
  Claim C1, as amended. The first text file a run of the handler writes is
  \<open>prompt.txt\<close> in the Message Directory, and it holds the prompt built from the
  text, the quoted reply and the paths logged as downloaded. Lines 336-345 start
  from the text, put the quoted-reply block in front of it, and then put the
  attachment manifest in front of that: with a quoted reply and at least one
  downloaded attachment the prompt is the manifest, then the quoted-reply block,
  then the text, trimmed. The manifest has one line for each downloaded path, and
  line \<open>i\<close> (counted from zero) carries the number \<open>i + 1\<close>.
\<close>

theorem ingress_prompt_order:
  fixes w allowedIds ctx tr chat message
  defines "promptPath \<equiv>
      join w [getMessageDir w (js ''telegram'') (numberToString chat @ js ''_'' @ numberToString message),
              js ''prompt.txt'']"
    and "new \<equiv> emitted (createIngressHandler w allowedIds ctx) tr"
  assumes ids: "ctxChatId ctx = Some chat" "ctxMessageId ctx = Some message"
  shows "(\<forall>p content. firstWrite new = Some (p, content) \<longrightarrow>
            p = promptPath
            \<and> content = buildPrompt (ctxText ctx) (ctxQuote ctx) (downloadedPaths new))
       \<and> (ctxQuote ctx \<noteq> [] \<and> downloadedPaths new \<noteq> [] \<longrightarrow>
            buildPrompt (ctxText ctx) (ctxQuote ctx) (downloadedPaths new)
            = trim (js ''Attachments:'' @ [NL] @ joinWith [NL] (manifestLines (downloadedPaths new))
                    @ [NL, NL] @ js ''Quote: '' @ ctxQuote ctx @ [NL, NL] @ ctxText ctx))
       \<and> length (manifestLines (downloadedPaths new)) = length (downloadedPaths new)
       \<and> (\<forall>i<length (downloadedPaths new).
            manifestLines (downloadedPaths new) ! i
            = numberToString (int i + 1) @ js ''. @'' @ downloadedPaths new ! i)"
proof (intro conjI allI impI)
  fix p content
  assume f: "firstWrite new = Some (p, content)"
  from postD [OF post_createIngressHandler_prompt [OF ids], of w allowedIds tr]
  have "promptWritten promptPath (ctxText ctx) (ctxQuote ctx) new"
    by (simp add: promptPath_def new_def)
  with f show "p = promptPath"
    and "content = buildPrompt (ctxText ctx) (ctxQuote ctx) (downloadedPaths new)"
    by (simp_all add: promptWritten_def)
next
  assume "ctxQuote ctx \<noteq> [] \<and> downloadedPaths new \<noteq> []"
  then show "buildPrompt (ctxText ctx) (ctxQuote ctx) (downloadedPaths new)
            = trim (js ''Attachments:'' @ [NL] @ joinWith [NL] (manifestLines (downloadedPaths new))
                    @ [NL, NL] @ js ''Quote: '' @ ctxQuote ctx @ [NL, NL] @ ctxText ctx)"
    using buildPrompt_quote_and_attachments [of "ctxQuote ctx" "downloadedPaths new" "ctxText ctx"]
    by (simp add: attachmentList_def)
next
  show "length (manifestLines (downloadedPaths new)) = length (downloadedPaths new)"
    by (simp add: manifestLines_def)
next
  fix i assume "i < length (downloadedPaths new)"
  then show "manifestLines (downloadedPaths new) ! i
            = numberToString (int i + 1) @ js ''. @'' @ downloadedPaths new ! i"
    by (rule manifestLines_nth)
qed

theorem ingress_prompt_order_witness:
  "ctxChatId (testContext 123 photoReply) = Some 456
   \<and> ctxMessageId (testContext 123 photoReply) = Some 789
   \<and> ctxQuote (testContext 123 photoReply) = js ''earlier''
   \<and> ctxText (testContext 123 photoReply) = js ''hi''
   \<and> downloadedPaths (emitted (createIngressHandler (testWorld []) {js ''123''}
                                  (testContext 123 photoReply)) []) = [testPhotoPath]
   \<and> firstWrite (emitted (createIngressHandler (testWorld []) {js ''123''}
                             (testContext 123 photoReply)) [])
       = Some (testMessageDir @ js ''/prompt.txt'', testPhotoPrompt)
   \<and> testPhotoPrompt
       = trim (js ''Attachments:'' @ [NL] @ joinWith [NL] (manifestLines [testPhotoPath])
               @ [NL, NL] @ js ''Quote: '' @ js ''earlier'' @ [NL, NL] @ js ''hi'')
   \<and> manifestLines [testPhotoPath] ! 0 = numberToString 1 @ js ''. @'' @ testPhotoPath"
proof -
  have i: "ctxChatId (testContext 123 photoReply) = Some 456"
    "ctxMessageId (testContext 123 photoReply) = Some 789"
    by (simp_all add: testContext_fields photoReply_fields)
  have f: "ctxQuote (testContext 123 photoReply) = js ''earlier''"
    "ctxText (testContext 123 photoReply) = js ''hi''"
    by (simp_all add: photoReply_fields)
  have q: "js ''earlier'' \<noteq> []" by (simp add: js_def)
  note T = ingress_prompt_order [OF i, of "testWorld []" "{js ''123''}" "[]",
      folded photoRun_def, unfolded photoRun_downloaded photoRun_firstWrite testPromptPath f]
  from T have "\<forall>p content. Some (testMessageDir @ js ''/prompt.txt'', testPhotoPrompt) = Some (p, content)
      \<longrightarrow> p = testMessageDir @ js ''/prompt.txt''
          \<and> content = buildPrompt (js ''hi'') (js ''earlier'') [testPhotoPath]"
    by (rule conjunct1)
  then have 1: "testPhotoPrompt = buildPrompt (js ''hi'') (js ''earlier'') [testPhotoPath]"
    by blast
  from T [THEN conjunct2, THEN conjunct1] q
  have 2: "buildPrompt (js ''hi'') (js ''earlier'') [testPhotoPath]
       = trim (js ''Attachments:'' @ [NL] @ joinWith [NL] (manifestLines [testPhotoPath])
               @ [NL, NL] @ js ''Quote: '' @ js ''earlier'' @ [NL, NL] @ js ''hi'')"
    by simp
  from T [THEN conjunct2, THEN conjunct2, THEN conjunct2]
  have 3: "manifestLines [testPhotoPath] ! 0 = numberToString 1 @ js ''. @'' @ testPhotoPath"
    by simp
  note 4 = trans [OF 1 2]
  note d = photoRun_downloaded [unfolded photoRun_def]
  note w = photoRun_firstWrite [unfolded photoRun_def]
  from i f d w 4 3 show ?thesis by (intro conjI)
qed

text \<open>
  Claim C1 as stated puts the quoted-reply block before the attachment manifest.
  The run of the handler on a photo with the caption \<open>hi\<close> that replies to
  \<open>earlier\<close> writes the manifest first.
\<close>

theorem ingress_prompt_quote_first_counterexample:
  "\<not> rejected {js ''123''} (testContext 123 photoReply)
   \<and> ctxQuote (testContext 123 photoReply) = js ''earlier''
   \<and> ctxText (testContext 123 photoReply) = js ''hi''
   \<and> downloadedPaths (emitted (createIngressHandler (testWorld []) {js ''123''}
                                  (testContext 123 photoReply)) []) = [testPhotoPath]
   \<and> firstWrite (emitted (createIngressHandler (testWorld []) {js ''123''}
                             (testContext 123 photoReply)) [])
       = Some (testMessageDir @ js ''/prompt.txt'', testPhotoPrompt)
   \<and> testPhotoPrompt \<noteq> promptQuoteFirst_spec (js ''hi'') (js ''earlier'') [testPhotoPath]"
  using accepted_photo photoReply_fields(2,3) photoRun_downloaded photoRun_firstWrite
    promptQuoteFirst_testPhoto
  unfolding photoRun_def by (simp add: eq_commute)

end
